theory Spec2Isabelle
  imports Main "HOL-Library.Monad_Syntax"
begin

section \<open>The data model of mett.c\<close>

text \<open>
  The editor keeps its text in fixed-capacity arrays of wide characters that are read as
  C strings: the content of a line ends at the first zero code unit. A wide character and
  a key code are natural numbers here. Plain C integers (\<open>int\<close>) are mathematical
  integers; where an operand comes from outside (\<open>cursor.c.x += x\<close> and \<open>abs(y)\<close> in
  \<open>mmove\<close>, the count of \<open>mruncmd\<close>, the digits typed in Normal mode) the result is
  wrapped to 32 bits as two's complement hardware does. The result
  type \<open>'a option\<close> has \<open>None\<close> for every run that leaves defined behaviour: a
  null or dangling pointer dereference, an access outside an array, a string without
  terminator, a division by zero. \<open>None\<close> is also the result where the process ends
  (\<open>quit\<close>) and for the few runs that the model does not follow; each of these is
  noted at the definition concerned.
\<close>

type_synonym wchar = nat

datatype Mode = MODE_NORMAL | MODE_INSERT | MODE_SELECT | MODE_COMMAND

datatype Marker = MARKER_START | MARKER_MIDDLE | MARKER_END

record Coord =
  cx :: int
  cy :: int

record Cursor =
  cc :: Coord
  v0 :: Coord
  v1 :: Coord
  starty :: int

text \<open>
  A \<open>Line\<close> is a node of a doubly linked chain. The chain of a buffer is the list
  \<open>lines\<close> of its nodes from the head on, and a pointer to a node is its position in
  that list: \<open>ln->prev\<close> exists iff the position is positive, \<open>ln->next\<close> iff a
  later position exists. The flexible array \<open>data\<close> is the list of its code units;
  its length is the room that the allocation of the node left behind the header
  (\<open>data_capacity\<close> below).
\<close>

record Line =
  length_ln :: nat
  data :: "wchar list"

record Buffer =
  next_b :: "nat option"
  prev_b :: "nat option"
  path :: "string option"
  lines :: "Line list"
  curline :: nat
  cursor :: Cursor
  linexoff :: int

text \<open>
  An \<open>Action\<close> binds a command name and a key code to one of the bindable functions.
  The function pointer \<open>fn\<close> is the name of the function (field \<open>fn_a\<close>). The union
  \<open>Arg\<close> is the member that was written last, the pointer \<open>v\<close> either to a byte
  string (\<open>Arg_v\<close>) or to a wide string (\<open>Arg_w\<close>, which \<open>command\<close> expects);
  \<open>Arg_null\<close> is the union of all zero bytes, which a table entry without argument has.
\<close>

datatype Fn =
    Fn_repaint | Fn_handlemouse | Fn_quit | Fn_setmode | Fn_save | Fn_readfile
  | Fn_readstr | Fn_find | Fn_command | Fn_motion | Fn_jump | Fn_coc | Fn_pgup
  | Fn_pgdown | Fn_bufsel | Fn_bufdel | Fn_insert | Fn_freeln | Fn_append | Fn_newln

datatype Arg =
    Arg_null
  | Arg_xy int int
  | Arg_i int
  | Arg_v string
  | Arg_w "wchar list"
  | Arg_m Marker

record Action =
  cmd_a :: "wchar list option"
  key_a :: int
  fn_a :: Fn
  arg_a :: Arg

text \<open>The constants of \<open>config.h\<close> that the modelled functions read. The file is not
  part of the sources at hand, so its values are parameters.\<close>

record config =
  tab_width :: int
  auto_indent :: bool
  default_linebuf_size :: nat
  max_cmd_repetition :: int
  backup_on_write :: bool
  backup_path :: string
  buffer_actions :: "Action list"
  ESC :: nat

text \<open>
  What the functions read from their surroundings: the size of the buffer window
  (\<open>getmaxyx(bufwin, row, col)\<close>), the locale's \<open>iswspace\<close> and its conversion
  of a wide string to bytes (\<open>wcsrtombs\<close>, \<open>None\<close> where it fails), the output of
  a shell command as \<open>mexec\<close> returns it (\<open>None\<close> for a null pointer), two facts
  about files that are explained below, the position of a click of the first mouse button
  in the buffer window (column and row, \<open>None\<close> when \<open>getmouse\<close> reports no such
  click), the regular expressions of the C library: which patterns compile, and
  whether a pattern matches a byte string, and what \<open>isdigit\<close> answers for a key code
  above 255. The C standard defines \<open>isdigit\<close> for the values of \<open>unsigned char\<close> only;
  for a larger key code the C library at hand decides (\<open>None\<close> where it gives no answer).
\<close>

record env =
  bufwin_row :: int
  bufwin_col :: int
  iswspace :: "wchar \<Rightarrow> bool"
  wcsrtombs :: "wchar list \<Rightarrow> string option"
  mexec :: "string \<Rightarrow> string option"
  can_write :: "string \<Rightarrow> bool"
  stdin_text :: "wchar list"
  mouse_click :: "(int \<times> int) option"
  regcomp_ok :: "string \<Rightarrow> bool"
  regexec :: "string \<Rightarrow> string \<Rightarrow> bool"
  isdigit_beyond :: "wchar \<Rightarrow> bool option"

text \<open>
  The file system, as far as the editor reads and writes it: the readable files and their
  text. A file holds wide characters (the encoding that \<open>fputws\<close> applies and
  \<open>fgetws\<close> undoes is left out). \<open>can_write\<close> above says for which paths
  \<open>fopen(path, "w+")\<close> succeeds; \<open>stdin_text\<close> is what standard input holds.
\<close>

type_synonym filesys = "string \<rightharpoonup> wchar list"

text \<open>
  The global variables. Buffers live in a store addressed by natural numbers, so that two
  pointers to buffers can be told apart; \<open>next_addr\<close> is the next address the
  allocator hands out.
\<close>

record editor =
  mode :: Mode
  heap :: "nat \<rightharpoonup> Buffer"
  buflist :: "nat option"
  curbuf :: "nat option"
  cmdbuf :: "nat option"
  repcnt :: int
  next_addr :: nat

section \<open>C arithmetic, strings and arrays\<close>

definition c_div :: "int \<Rightarrow> int \<Rightarrow> int" where
  "c_div a b = sgn a * sgn b * (\<bar>a\<bar> div \<bar>b\<bar>)"

definition c_mod :: "int \<Rightarrow> int \<Rightarrow> int" where
  "c_mod a b = a - b * c_div a b"

definition int32 :: "int \<Rightarrow> int" where
  "int32 v = (v + 2147483648) mod 4294967296 - 2147483648"

text \<open>\<open>abs\<close> on an \<open>int\<close>: the negation of the least value wraps to that value itself.\<close>

definition c_abs :: "int \<Rightarrow> int" where
  "c_abs v = int32 \<bar>v\<bar>"

definition KEY_BACKSPACE :: nat where
  "KEY_BACKSPACE = 263"

definition KEY_DC :: nat where
  "KEY_DC = 330"

text \<open>
  \<open>calloc\<close> reserves as many bytes as the product of its two arguments. Of the bytes of
  a \<open>Line\<close> the header (two pointers and a \<open>size_t\<close>) takes \<open>sizeof(Line)\<close>, and the
  rest is room for \<open>data\<close>. The sizes are those of a 64-bit Linux: pointers and
  \<open>size_t\<close> of eight bytes, \<open>wchar_t\<close> of four. \<open>mnewbuf\<close> and \<open>minsert\<close> ask for
  \<open>sizeof(wchar_t) * (sizeof(Line) + default_linebuf_size)\<close> bytes, which is room for
  \<open>default_linebuf_size + 18\<close> code units; \<open>mreadbuf\<close> asks for
  \<open>sizeof(Line) + default_linebuf_size * sizeof(wchar_t)\<close> bytes, room for
  \<open>default_linebuf_size\<close> code units.
\<close>

definition sizeof_wchar_t :: nat where
  "sizeof_wchar_t = 4"

definition sizeof_Line :: nat where
  "sizeof_Line = 24"

definition data_capacity :: "nat \<Rightarrow> nat" where
  "data_capacity bytes = (bytes - sizeof_Line) div sizeof_wchar_t"

definition wcslen :: "wchar list \<Rightarrow> nat option" where
  "wcslen d = (if 0 \<in> set d then Some (length (takeWhile (\<lambda>c. c \<noteq> 0) d)) else None)"

definition wcs :: "wchar list \<Rightarrow> wchar list option" where
  "wcs d = (if 0 \<in> set d then Some (takeWhile (\<lambda>c. c \<noteq> 0) d) else None)"

text \<open>
  \<open>memcpy dst doff src soff n\<close> is \<open>memcpy(dst + doff, src + soff, n * sizeof(wchar_t))\<close>.
  Where source and destination are the same array the ranges overlap; the copy then
  behaves as \<open>memmove\<close> does (the source range is read before it is overwritten).
\<close>

definition memcpy :: "wchar list \<Rightarrow> int \<Rightarrow> wchar list \<Rightarrow> int \<Rightarrow> nat \<Rightarrow> wchar list option" where
  "memcpy dst doff src soff n =
     (if 0 \<le> doff \<and> 0 \<le> soff \<and> nat doff + n \<le> length dst \<and> nat soff + n \<le> length src
      then Some (take (nat doff) dst @ take n (drop (nat soff) src) @ drop (nat doff + n) dst)
      else None)"

definition store :: "wchar list \<Rightarrow> int \<Rightarrow> wchar \<Rightarrow> wchar list option" where
  "store d i v = (if 0 \<le> i \<and> nat i < length d then Some (d[nat i := v]) else None)"

section \<open>Access to the current line and the cursor\<close>

definition curln :: "Buffer \<Rightarrow> Line option" where
  "curln b = (if curline b < length (lines b) then Some (lines b ! curline b) else None)"

definition cx_of :: "Buffer \<Rightarrow> int" where
  "cx_of b = cx (cc (cursor b))"

definition cy_of :: "Buffer \<Rightarrow> int" where
  "cy_of b = cy (cc (cursor b))"

definition starty_of :: "Buffer \<Rightarrow> int" where
  "starty_of b = starty (cursor b)"

definition set_cx :: "Buffer \<Rightarrow> int \<Rightarrow> Buffer" where
  "set_cx b v = b\<lparr>cursor := (cursor b)\<lparr>cc := (cc (cursor b))\<lparr>cx := v\<rparr>\<rparr>\<rparr>"

definition set_cy :: "Buffer \<Rightarrow> int \<Rightarrow> Buffer" where
  "set_cy b v = b\<lparr>cursor := (cursor b)\<lparr>cc := (cc (cursor b))\<lparr>cy := v\<rparr>\<rparr>\<rparr>"

definition set_starty :: "Buffer \<Rightarrow> int \<Rightarrow> Buffer" where
  "set_starty b v = b\<lparr>cursor := (cursor b)\<lparr>starty := v\<rparr>\<rparr>"

definition set_curdata :: "Buffer \<Rightarrow> wchar list \<Rightarrow> Buffer" where
  "set_curdata b d = b\<lparr>lines := (lines b)[curline b := (lines b ! curline b)\<lparr>data := d\<rparr>]\<rparr>"

definition put :: "nat \<Rightarrow> Buffer \<Rightarrow> 'a editor_scheme \<Rightarrow> 'a editor_scheme" where
  "put p b e = e\<lparr>heap := (heap e)(p \<mapsto> b)\<rparr>"

section \<open>Cursor and viewport: mnumvislines, mmove, mjump\<close>

definition mnumvislines :: "env \<Rightarrow> Line \<Rightarrow> int option" where
  "mnumvislines env ln = do {
     n \<leftarrow> wcslen (data ln);
     let len = int n + 4;
     Some (if bufwin_col env \<noteq> 0 then c_div (len + bufwin_col env - 1) (bufwin_col env) else 1)
   }"

text \<open>The loop of \<open>mmove\<close> for \<open>y < 0\<close>; the first argument counts the iterations left
  (\<open>abs(y)\<close> at the start, which is no iteration for the least \<open>int\<close>).\<close>

fun mmove_up :: "env \<Rightarrow> nat \<Rightarrow> Buffer \<Rightarrow> Buffer option" where
  "mmove_up env 0 b = Some b"
| "mmove_up env (Suc k) b =
     (if curline b < length (lines b) then
        (if 0 < curline b then
           (let b1 = set_cy (b\<lparr>curline := curline b - 1\<rparr>) (cy_of b - 1) in
            if cy_of b1 < starty_of b1 then do {
              v \<leftarrow> mnumvislines env (lines b1 ! curline b1);
              mmove_up env k (set_starty b1 (starty_of b1 - v))
            } else mmove_up env k b1)
         else Some b)
      else None)"

text \<open>The loop of \<open>mmove\<close> for \<open>y \<ge> 0\<close>.\<close>

fun mmove_down :: "env \<Rightarrow> nat \<Rightarrow> Buffer \<Rightarrow> Buffer option" where
  "mmove_down env 0 b = Some b"
| "mmove_down env (Suc k) b =
     (if curline b < length (lines b) then
        (if curline b + 1 < length (lines b) then
           (let b1 = set_cy (b\<lparr>curline := curline b + 1\<rparr>) (cy_of b + 1) in
            if cy_of b1 - starty_of b1 \<ge> bufwin_row env then do {
              v \<leftarrow> mnumvislines env (lines b1 ! curline b1);
              mmove_down env k (set_starty b1 (starty_of b1 + v))
            } else mmove_down env k b1)
         else Some b)
      else None)"

definition mmove :: "env \<Rightarrow> Buffer \<Rightarrow> int \<Rightarrow> int \<Rightarrow> Buffer option" where
  "mmove env b dx dy = do {
     let b0 = set_cx b (int32 (cx_of b + dx));
     b1 \<leftarrow> (if dy < 0 then mmove_up env (nat (c_abs dy)) b0 else mmove_down env (nat dy) b0);
     ln \<leftarrow> curln b1;
     len \<leftarrow> wcslen (data ln);
     Some (set_cx b1 (max (min (cx_of b1) (int len)) 0))
   }"

text \<open>
  \<open>mjump\<close> takes a buffer pointer and never reads it: every branch works on the global
  \<open>curbuf\<close>.
\<close>

definition mjump :: "nat option \<Rightarrow> Marker \<Rightarrow> 'a editor_scheme \<Rightarrow> 'a editor_scheme option" where
  "mjump buf mark e =
     (case mark of
        MARKER_START \<Rightarrow> do {
          p \<leftarrow> curbuf e;
          b \<leftarrow> heap e p;
          Some (put p (set_cx b 0) e)
        }
      | MARKER_MIDDLE \<Rightarrow> do {
          p \<leftarrow> curbuf e;
          b \<leftarrow> heap e p;
          ln \<leftarrow> curln b;
          len \<leftarrow> wcslen (data ln);
          Some (put p (set_cx b (int (len div 2))) e)
        }
      | MARKER_END \<Rightarrow> do {
          p \<leftarrow> curbuf e;
          b \<leftarrow> heap e p;
          ln \<leftarrow> curln b;
          len \<leftarrow> wcslen (data ln);
          Some (put p (set_cx b (max (int len) 0)) e)
        })"

section \<open>The line editor: mindent, mfreeln, minsert\<close>

text \<open>\<open>for (; i < hi; ++i) d[i] = v\<close>, the second argument being the current \<open>i\<close>.\<close>

function fill_loop :: "wchar list \<Rightarrow> int \<Rightarrow> int \<Rightarrow> wchar \<Rightarrow> (wchar list \<times> int) option" where
  "fill_loop d i hi v =
     (if i < hi then
        (case store d i v of None \<Rightarrow> None | Some d' \<Rightarrow> fill_loop d' (i + 1) hi v)
      else Some (d, i))"
  by pat_completeness auto
termination
  by (relation "measure (\<lambda>(d, i, hi, v). nat (hi - i))") auto

declare fill_loop.simps [simp del]

definition mindent :: "config \<Rightarrow> wchar list \<Rightarrow> int \<Rightarrow> (wchar list \<times> int) option" where
  "mindent cfg d n =
     (if tab_width cfg = 0 then None
      else do {
        let tabs = c_div n (tab_width cfg);
        let spaces = c_mod n (tab_width cfg);
        (d1, i1) \<leftarrow> fill_loop d 0 tabs 9;
        (d2, i2) \<leftarrow> fill_loop d1 i1 spaces 32;
        Some (d2, tabs + spaces)
      })"

text \<open>Unlinking a node from the chain and freeing it: the chain without that node.\<close>

definition mfreeln :: "Line list \<Rightarrow> nat \<Rightarrow> Line list" where
  "mfreeln ls i = take i ls @ drop (Suc i) ls"

text \<open>
  The loop of \<open>minsert\<close> that measures the leading white space of the old line up to
  column \<open>idx\<close>: \<open>x\<close> is the loop variable, the third argument counts the iterations
  left (\<open>idx - x\<close>).
\<close>

fun indent_scan :: "config \<Rightarrow> env \<Rightarrow> wchar list \<Rightarrow> nat \<Rightarrow> nat \<Rightarrow> int \<Rightarrow> int option" where
  "indent_scan cfg env d x 0 mx = Some mx"
| "indent_scan cfg env d x (Suc k) mx =
     (if x < length d then
        (if d ! x = 9 then indent_scan cfg env d (Suc x) k (mx + tab_width cfg)
         else if iswspace env (d ! x) then indent_scan cfg env d (Suc x) k (mx + 1)
         else Some mx)
      else None)"

text \<open>
  \<open>minsert\<close>. The argument \<open>runcmd\<close> stands for \<open>mruncmd\<close>, which the newline
  branch calls in command mode with the text of the command buffer's current line.
\<close>

definition minsert ::
  "config \<Rightarrow> env \<Rightarrow> (wchar list \<Rightarrow> 'a editor_scheme \<Rightarrow> 'a editor_scheme option) \<Rightarrow> nat option \<Rightarrow> wchar \<Rightarrow> 'a editor_scheme \<Rightarrow> 'a editor_scheme option" where
  "minsert cfg env runcmd buf key e =
     (case buf of
        None \<Rightarrow> Some e
      | Some p \<Rightarrow> do {
          b \<leftarrow> heap e p;
          (case curln b of
             None \<Rightarrow> Some e
           | Some ln \<Rightarrow> do {
               let idx = cx_of b;
               n \<leftarrow> wcslen (data ln);
               let len = n + 1;
               if key = KEY_BACKSPACE then
                 (if idx \<noteq> 0 then do {
                    d' \<leftarrow> memcpy (data ln) (idx - 1) (data ln) idx len;
                    Some (put p (set_cx (set_curdata b d') (idx - 1)) e)
                  } else if 0 < curline b then do {
                    let pl = lines b ! (curline b - 1);
                    plen \<leftarrow> wcslen (data pl);
                    pd \<leftarrow> memcpy (data pl) (int plen) (data ln) 0 len;
                    let b1 = b\<lparr>lines := (lines b)[curline b - 1 := pl\<lparr>data := pd\<rparr>]\<rparr>;
                    b2 \<leftarrow> mmove env b1 (int plen + cx_of b1) (- 1);
                    let b3 = b2\<lparr>curline := curline b - 1\<rparr>;
                    Some (put p (b3\<lparr>lines := mfreeln (lines b3) (curline b)\<rparr>) e)
                  } else Some e)
               else if key = KEY_DC then do {
                 d' \<leftarrow> memcpy (data ln) idx (data ln) (idx + 1) len;
                 Some (put p (set_curdata b d') e)
               }
               else if key = 10 then
                 (if mode e = MODE_COMMAND then do {
                    cp \<leftarrow> cmdbuf e;
                    cb \<leftarrow> heap e cp;
                    cl \<leftarrow> curln cb;
                    txt \<leftarrow> wcs (data cl);
                    runcmd txt e
                  } else do {
                    let new = \<lparr>length_ln = 0,
                               data = replicate (data_capacity (sizeof_wchar_t * (sizeof_Line + default_linebuf_size cfg))) 0\<rparr>;
                    (nd, ox) \<leftarrow> (if auto_indent cfg then do {
                                   mx \<leftarrow> indent_scan cfg env (data ln) 0 (nat idx) 0;
                                   mindent cfg (data new) mx
                                 } else Some (data new, 0));
                    nd' \<leftarrow> memcpy nd ox (data ln) idx len;
                    od \<leftarrow> store (data ln) idx 0;
                    let b1 = b\<lparr>lines := take (curline b) (lines b) @ [ln\<lparr>data := od\<rparr>, new\<lparr>data := nd'\<rparr>]
                                          @ drop (Suc (curline b)) (lines b)\<rparr>;
                    e1 \<leftarrow> mjump (Some p) MARKER_START (put p b1 e);
                    b1' \<leftarrow> heap e1 p;
                    b2 \<leftarrow> mmove env b1' 0 1;
                    Some (put p (set_cx b2 ox) e1)
                  })
               else do {
                 d1 \<leftarrow> memcpy (data ln) (idx + 1) (data ln) idx len;
                 d2 \<leftarrow> store d1 idx key;
                 Some (put p (set_cx (set_curdata b d2) (idx + 1)) e)
               }
             })
        })"


section \<open>Buffers: mnewbuf, mclearbuf, freeln\<close>

definition zero_Coord :: Coord where
  "zero_Coord = \<lparr>cx = 0, cy = 0\<rparr>"

definition zero_Cursor :: Cursor where
  "zero_Cursor = \<lparr>cc = zero_Coord, v0 = zero_Coord, v1 = zero_Coord, starty = 0\<rparr>"

text \<open>
  \<open>mnewbuf\<close>: a zeroed \<open>Buffer\<close> becomes the head of \<open>buflist\<close> and gets one zeroed
  line. Allocation is taken to succeed. The result is the new pointer and the new state.
\<close>

definition mnewbuf :: "config \<Rightarrow> 'a editor_scheme \<Rightarrow> (nat \<times> 'a editor_scheme) option" where
  "mnewbuf cfg e = do {
     let p = next_addr e;
     let nxt = buflist e;
     let b = \<lparr>next_b = nxt, prev_b = None, path = None,
              lines = [\<lparr>length_ln = default_linebuf_size cfg,
                        data = replicate (data_capacity (sizeof_wchar_t * (sizeof_Line + default_linebuf_size cfg))) 0\<rparr>],
              curline = 0, cursor = zero_Cursor, linexoff = 4\<rparr>;
     let e1 = (put p b e)\<lparr>buflist := Some p, next_addr := Suc p\<rparr>;
     (case nxt of
        None \<Rightarrow> Some (p, e1)
      | Some q \<Rightarrow> do {
          nb \<leftarrow> heap e1 q;
          Some (p, put q (nb\<lparr>prev_b := Some p\<rparr>) e1)
        })
   }"

text \<open>
  \<open>mclearbuf\<close>. The loop \<open>for (ln = buf->lines->next; ln; ln = ln->next) free(ln)\<close>
  frees the node behind the head and then reads the \<open>next\<close> pointer of the node it has
  just freed: where a line follows the head there is no defined result. Where the head is
  the only line the loop does not run; the head becomes the current line, loses its
  successor and is emptied.
\<close>

definition mclearbuf :: "Buffer \<Rightarrow> Buffer option" where
  "mclearbuf b =
     (case lines b of
        [] \<Rightarrow> None
      | ln # rest \<Rightarrow>
          if rest \<noteq> [] then None
          else do {
            d \<leftarrow> store (data ln) 0 0;
            Some (b\<lparr>lines := [ln\<lparr>data := d\<rparr>], curline := 0\<rparr>)
          })"

text \<open>\<open>freeln\<close>, the bindable line deletion, works on \<open>curbuf\<close>.\<close>

definition freeln :: "'a editor_scheme \<Rightarrow> 'a editor_scheme option" where
  "freeln e = do {
     p \<leftarrow> curbuf e;
     b \<leftarrow> heap e p;
     ln \<leftarrow> curln b;
     let i = curline b;
     if i + 1 < length (lines b) then
       Some (put p (b\<lparr>lines := mfreeln (lines b) i, curline := i\<rparr>) e)
     else if 0 < i then
       Some (put p (b\<lparr>lines := mfreeln (lines b) i, curline := i - 1\<rparr>) e)
     else Some e
   }"

text \<open>The globals at program start, and the start of \<open>main\<close> when no file is named.\<close>

definition init_editor :: editor where
  "init_editor = \<lparr>mode = MODE_NORMAL, heap = Map.empty, buflist = None, curbuf = None,
                   cmdbuf = None, repcnt = 0, next_addr = 0\<rparr>"

definition startup :: "config \<Rightarrow> editor option" where
  "startup cfg = do {
     (c, e1) \<leftarrow> mnewbuf cfg init_editor;
     cb \<leftarrow> heap e1 c;
     let e2 = (put c (cb\<lparr>linexoff := 0\<rparr>) e1)\<lparr>cmdbuf := Some c\<rparr>;
     (p, e3) \<leftarrow> mnewbuf cfg e2;
     Some (e3\<lparr>curbuf := Some p\<rparr>)
   }"


section \<open>The bindable functions that move the cursor and edit lines\<close>

definition motion :: "env \<Rightarrow> int \<Rightarrow> int \<Rightarrow> 'a editor_scheme \<Rightarrow> 'a editor_scheme option" where
  "motion env dx dy e = do {
     p \<leftarrow> curbuf e;
     b \<leftarrow> heap e p;
     b' \<leftarrow> mmove env b dx dy;
     Some (put p b' e)
   }"

definition jump :: "Marker \<Rightarrow> 'a editor_scheme \<Rightarrow> 'a editor_scheme option" where
  "jump m e = mjump (curbuf e) m e"

definition coc :: "env \<Rightarrow> 'a editor_scheme \<Rightarrow> 'a editor_scheme option" where
  "coc env e = do {
     p \<leftarrow> curbuf e;
     b \<leftarrow> heap e p;
     Some (put p (set_starty b (- (c_div (bufwin_row env) 2 - cy_of b))) e)
   }"

definition pgup :: "env \<Rightarrow> 'a editor_scheme \<Rightarrow> 'a editor_scheme option" where
  "pgup env e = motion env 0 (- bufwin_row env) e"

definition pgdown :: "env \<Rightarrow> 'a editor_scheme \<Rightarrow> 'a editor_scheme option" where
  "pgdown env e = motion env 0 (bufwin_row env) e"

definition setmode :: "Mode \<Rightarrow> 'a editor_scheme \<Rightarrow> 'a editor_scheme option" where
  "setmode m e = Some (e\<lparr>mode := m\<rparr>)"

definition insert_key ::
  "config \<Rightarrow> env \<Rightarrow> (wchar list \<Rightarrow> 'a editor_scheme \<Rightarrow> 'a editor_scheme option) \<Rightarrow> wchar \<Rightarrow> 'a editor_scheme \<Rightarrow> 'a editor_scheme option" where
  "insert_key cfg env runcmd k e = minsert cfg env runcmd (curbuf e) k e"

definition append :: "'a editor_scheme \<Rightarrow> 'a editor_scheme option" where
  "append e = do {
     e1 \<leftarrow> mjump (curbuf e) MARKER_END e;
     Some (e1\<lparr>mode := MODE_INSERT\<rparr>)
   }"

definition newln ::
  "config \<Rightarrow> env \<Rightarrow> (wchar list \<Rightarrow> 'a editor_scheme \<Rightarrow> 'a editor_scheme option) \<Rightarrow> 'a editor_scheme \<Rightarrow> 'a editor_scheme option" where
  "newln cfg env runcmd e = do {
     e1 \<leftarrow> mjump (curbuf e) MARKER_END e;
     e2 \<leftarrow> minsert cfg env runcmd (curbuf e1) 10 e1;
     Some (e2\<lparr>mode := MODE_INSERT\<rparr>)
   }"

section \<open>Files: mreadbuf, save, readfile\<close>

text \<open>
  \<open>fgetws(linecnt, n, fp)\<close> reads at most \<open>n - 1\<close> code units and stops behind a
  newline; at the end of the file it returns null. The result is the record read and the
  rest of the stream.
\<close>

fun fgetws_chars :: "nat \<Rightarrow> wchar list \<Rightarrow> wchar list \<times> wchar list" where
  "fgetws_chars 0 s = ([], s)"
| "fgetws_chars (Suc k) [] = ([], [])"
| "fgetws_chars (Suc k) (c # s) =
     (if c = 10 then ([c], s)
      else (case fgetws_chars k s of (r, rest) \<Rightarrow> (c # r, rest)))"

definition fgetws :: "nat \<Rightarrow> wchar list \<Rightarrow> (wchar list \<times> wchar list) option" where
  "fgetws n s = (if s = [] then None else Some (fgetws_chars (n - 1) s))"

text \<open>\<open>wcsncpy(dst, src, n)\<close>: the string \<open>src\<close>, filled up with zeros to \<open>n\<close> code
  units.\<close>

definition wcsncpy :: "wchar list \<Rightarrow> wchar list \<Rightarrow> nat \<Rightarrow> wchar list option" where
  "wcsncpy dst src n =
     (if n \<le> length dst
      then Some (take n (takeWhile (\<lambda>c. c \<noteq> 0) src @ replicate n 0) @ drop n dst)
      else None)"

text \<open>
  The loop of \<open>mreadbuf\<close>. \<open>ln\<close> is the line to fill next and \<open>s\<close> the rest of
  the stream; the result is the chain from \<open>ln\<close> on. Each record read fills \<open>ln\<close>,
  cuts its last code unit and appends a fresh zeroed line, which is the next \<open>ln\<close>. A
  record that consumes nothing (a capacity below 2) would repeat forever; it already fails
  at \<open>ln->data[len-1]\<close> with \<open>len = 0\<close>.
\<close>

function read_lines :: "config \<Rightarrow> Line \<Rightarrow> wchar list \<Rightarrow> Line list option" where
  "read_lines cfg ln s =
     (case fgetws (default_linebuf_size cfg) s of
        None \<Rightarrow> Some [ln]
      | Some (linecnt, rest) \<Rightarrow>
          (case wcslen (linecnt @ [0]) of
             None \<Rightarrow> None
           | Some len \<Rightarrow>
               (case wcsncpy (data ln) (linecnt @ [0]) (default_linebuf_size cfg) of
                  None \<Rightarrow> None
                | Some d1 \<Rightarrow>
                    (case store d1 (int len - 1) 0 of
                       None \<Rightarrow> None
                     | Some d2 \<Rightarrow>
                         if length rest < length s then
                           (case read_lines cfg
                                   \<lparr>length_ln = 0,
                                    data = replicate (data_capacity (sizeof_Line + default_linebuf_size cfg * sizeof_wchar_t)) 0\<rparr>
                                   rest of
                              None \<Rightarrow> None
                            | Some following \<Rightarrow>
                                Some (ln\<lparr>length_ln := default_linebuf_size cfg, data := d2\<rparr> # following))
                         else None))))"
  by pat_completeness auto
termination
  by (relation "measure (\<lambda>(cfg, ln, s). length s)") auto

declare read_lines.simps [simp del]

text \<open>
  \<open>mreadbuf\<close> fills the chain from the head line of the buffer on; the lines that
  followed the head are no longer linked once a record was read. The callers pass a buffer
  fresh from \<open>mnewbuf\<close>, whose current line is the head. A buffer whose current line is
  a later line would keep a pointer into the unlinked part of the chain, which a list
  cannot show: the result is \<open>None\<close> for it as well. The result is the return value
  and the buffer.
\<close>

definition mreadbuf :: "config \<Rightarrow> env \<Rightarrow> filesys \<Rightarrow> Buffer \<Rightarrow> string \<Rightarrow> (int \<times> Buffer) option" where
  "mreadbuf cfg env fs b pth =
     (let fp = (if pth = ''-'' then Some (stdin_text env) else fs pth) in
      case fp of
        None \<Rightarrow> Some (1, b\<lparr>path := Some pth\<rparr>)
      | Some s \<Rightarrow>
          (case lines b of
             [] \<Rightarrow> Some (1, b\<lparr>path := Some pth\<rparr>)
           | ln # others \<Rightarrow>
               if s = [] then Some (1, b\<lparr>path := Some pth\<rparr>)
               else if curline b \<noteq> 0 then None
               else (case read_lines cfg ln s of
                       None \<Rightarrow> None
                     | Some ls \<Rightarrow> Some (1, b\<lparr>lines := ls, path := Some pth\<rparr>))))"

text \<open>The member \<open>v\<close> of the argument union as a byte string: null for a union of zero
  bytes, not determined for an integer or marker that is not zero and for a wide string.\<close>

definition arg_v :: "Arg \<Rightarrow> string option option" where
  "arg_v a =
     (case a of
        Arg_null \<Rightarrow> Some None
      | Arg_v t \<Rightarrow> Some (Some t)
      | Arg_xy dx dy \<Rightarrow> if dx = 0 \<and> dy = 0 then Some None else None
      | Arg_i i \<Rightarrow> if i = 0 then Some None else None
      | Arg_w t \<Rightarrow> None
      | Arg_m m \<Rightarrow> if m = MARKER_START then Some None else None)"

text \<open>What \<open>save\<close> writes: every line as a string, each followed by one newline.\<close>

fun file_text :: "Line list \<Rightarrow> wchar list option" where
  "file_text [] = Some []"
| "file_text (ln # ls) =
     (case wcs (data ln) of
        None \<Rightarrow> None
      | Some t \<Rightarrow> (case file_text ls of None \<Rightarrow> None | Some ts \<Rightarrow> Some (t @ [10] @ ts)))"

text \<open>
  \<open>save\<close> changes the file system only. With \<open>backup_on_write\<close> the backup file is
  opened for writing first, which empties it, and receives the text of the buffer's file
  if that can be read.
\<close>

definition save :: "config \<Rightarrow> env \<Rightarrow> Action \<Rightarrow> 'a editor_scheme \<Rightarrow> filesys \<Rightarrow> filesys option" where
  "save cfg env ac e fs = do {
     v \<leftarrow> arg_v (arg_a ac);
     p \<leftarrow> curbuf e;
     b \<leftarrow> heap e p;
     if v = None \<and> path b = None then Some fs
     else do {
       fs1 \<leftarrow> (if backup_on_write cfg \<and> can_write env (backup_path cfg) then do {
                  let fs0 = fs(backup_path cfg \<mapsto> []);
                  src \<leftarrow> path b;
                  Some (case fs0 src of None \<Rightarrow> fs0 | Some t \<Rightarrow> fs0(backup_path cfg \<mapsto> t))
                } else Some fs);
       target \<leftarrow> (case v of Some t \<Rightarrow> Some t | None \<Rightarrow> path b);
       if can_write env target then do {
         t \<leftarrow> file_text (lines b);
         Some (fs1(target \<mapsto> t))
       } else Some fs1
     }
   }"

text \<open>\<open>readfile\<close>: a new buffer becomes the current one and is filled from the path.\<close>

definition readfile :: "config \<Rightarrow> env \<Rightarrow> filesys \<Rightarrow> Action \<Rightarrow> 'a editor_scheme \<Rightarrow> 'a editor_scheme option" where
  "readfile cfg env fs ac e = do {
     v \<leftarrow> arg_v (arg_a ac);
     (case v of
        None \<Rightarrow> Some e
      | Some pth \<Rightarrow> do {
          (p, e1) \<leftarrow> mnewbuf cfg e;
          b \<leftarrow> heap e1 p;
          (r, b') \<leftarrow> mreadbuf cfg env fs b pth;
          Some (put p b' (e1\<lparr>curbuf := Some p\<rparr>))
        })
   }"

section \<open>The command interpreter: mrepeat, findchr, mruncmd\<close>

text \<open>
  \<open>ac->fn(ac)\<close> is \<open>call ac\<close>: the dispatcher is modelled for every meaning of the
  bound functions. The loop of \<open>mrepeat\<close>, the first argument after the action counting
  the iterations left.
\<close>

fun mrepeat_loop :: "(Action \<Rightarrow> 's \<Rightarrow> 's option) \<Rightarrow> Action \<Rightarrow> nat \<Rightarrow> 's \<Rightarrow> 's option" where
  "mrepeat_loop call ac 0 s = Some s"
| "mrepeat_loop call ac (Suc k) s =
     (case call ac s of None \<Rightarrow> None | Some s' \<Rightarrow> mrepeat_loop call ac k s')"

definition mrepeat :: "config \<Rightarrow> (Action \<Rightarrow> 's \<Rightarrow> 's option) \<Rightarrow> Action \<Rightarrow> int \<Rightarrow> 's \<Rightarrow> 's option" where
  "mrepeat cfg call ac n s =
     mrepeat_loop call ac (nat (min n (max_cmd_repetition cfg))) s"

text \<open>
  Strings that are only read are the lists of their code units before the terminator.
  \<open>findchr\<close> searches from \<open>start\<close>; \<open>wcsncmp\<close> compares at most \<open>n\<close> code units.
\<close>

fun findchr_from :: "wchar list \<Rightarrow> nat \<Rightarrow> wchar \<Rightarrow> int" where
  "findchr_from [] i c = - 1"
| "findchr_from (x # xs) i c = (if x = c then int i else findchr_from xs (Suc i) c)"

definition findchr :: "wchar list \<Rightarrow> nat \<Rightarrow> wchar \<Rightarrow> int" where
  "findchr buf start c = findchr_from (drop start buf) start c"

fun wcsncmp :: "wchar list \<Rightarrow> wchar list \<Rightarrow> nat \<Rightarrow> int" where
  "wcsncmp a b 0 = 0"
| "wcsncmp [] [] (Suc n) = 0"
| "wcsncmp [] (y # ys) (Suc n) = - 1"
| "wcsncmp (x # xs) [] (Suc n) = 1"
| "wcsncmp (x # xs) (y # ys) (Suc n) =
     (if x = y then wcsncmp xs ys n else if x < y then - 1 else 1)"

text \<open>
  \<open>wcstol(buf, &cmd, 10)\<close>: white space, an optional sign, decimal digits. The result is
  the value, kept within the range of a 64-bit \<open>long\<close>, and the rest of the text; without
  a digit the value is 0 and the rest is the whole text.
\<close>

definition is_digit :: "wchar \<Rightarrow> bool" where
  "is_digit c = (48 \<le> c \<and> c \<le> 57)"

definition dec_val :: "wchar list \<Rightarrow> int" where
  "dec_val ds = foldl (\<lambda>a c. 10 * a + (int c - 48)) 0 ds"

definition clamp_long :: "int \<Rightarrow> int" where
  "clamp_long v = max (- 9223372036854775808) (min v 9223372036854775807)"

definition wcstol :: "env \<Rightarrow> wchar list \<Rightarrow> int \<times> wchar list" where
  "wcstol env s =
     (let s1 = dropWhile (iswspace env) s;
          neg = (case s1 of [] \<Rightarrow> False | c # r \<Rightarrow> c = 45);
          s2 = (case s1 of [] \<Rightarrow> s1 | c # r \<Rightarrow> if c = 45 \<or> c = 43 then r else s1);
          ds = takeWhile is_digit s2
      in if ds = [] then (0, s)
         else (clamp_long (if neg then - dec_val ds else dec_val ds), dropWhile is_digit s2))"

text \<open>The test of \<open>mruncmd\<close> for one table entry.\<close>

definition matches :: "Action \<Rightarrow> wchar list \<Rightarrow> int \<Rightarrow> bool" where
  "matches ac cmdt cmdlen =
     (case cmd_a ac of
        None \<Rightarrow> False
      | Some name \<Rightarrow>
          (cmdlen = 1 \<and> key_a ac = int (case cmdt of [] \<Rightarrow> 0 | c # r \<Rightarrow> c))
          \<or> wcsncmp name cmdt (nat cmdlen) = 0)"

text \<open>The copy of the entry that \<open>mruncmd\<close> invokes: with an argument on the command
  line, \<open>arg.v\<close> is that argument, or the output of the shell for an argument that
  starts with an exclamation mark.\<close>

definition with_arg :: "env \<Rightarrow> string option \<Rightarrow> Action \<Rightarrow> Action" where
  "with_arg env a ac =
     (case a of
        None \<Rightarrow> ac
      | Some t \<Rightarrow>
          (case t of
             c # r \<Rightarrow>
               if c = CHR ''!'' then
                 ac\<lparr>arg_a := (case mexec env r of None \<Rightarrow> Arg_null | Some out \<Rightarrow> Arg_v out)\<rparr>
               else ac\<lparr>arg_a := Arg_v t\<rparr>
           | [] \<Rightarrow> ac\<lparr>arg_a := Arg_v t\<rparr>))"

text \<open>The loop of \<open>mruncmd\<close> over the table.\<close>

fun mruncmd_loop ::
  "config \<Rightarrow> env \<Rightarrow> (Action \<Rightarrow> 'a editor_scheme \<Rightarrow> 'a editor_scheme option) \<Rightarrow> wchar list \<Rightarrow> int
     \<Rightarrow> string option \<Rightarrow> int \<Rightarrow> Action list \<Rightarrow> 'a editor_scheme \<Rightarrow> 'a editor_scheme option" where
  "mruncmd_loop cfg env call cmdt cmdlen a cnt [] e = Some e"
| "mruncmd_loop cfg env call cmdt cmdlen a cnt (ac # acs) e =
     (if matches ac cmdt cmdlen then
        (case mrepeat cfg call (with_arg env a ac) cnt (e\<lparr>mode := MODE_INSERT\<rparr>) of
           None \<Rightarrow> None
         | Some e1 \<Rightarrow> mruncmd_loop cfg env call cmdt cmdlen a cnt acs (e1\<lparr>mode := MODE_COMMAND\<rparr>))
      else mruncmd_loop cfg env call cmdt cmdlen a cnt acs e)"

text \<open>The length of the command token: up to the first space, or all of the text.\<close>

definition cmdlen_of :: "wchar list \<Rightarrow> int" where
  "cmdlen_of cmdt = (if findchr cmdt 0 32 < 0 then int (length cmdt) else findchr cmdt 0 32)"

text \<open>The optional argument: the text after the token and one space, converted to
  bytes. The outer \<open>None\<close> is a failed conversion, \<open>Some None\<close> a command without
  argument (\<open>arg\<close> stays null).\<close>

definition cmd_arg :: "env \<Rightarrow> wchar list \<Rightarrow> string option option" where
  "cmd_arg env cmdt =
     (if int (length cmdt) > cmdlen_of cmdt then
        (case wcsrtombs env (drop (nat (cmdlen_of cmdt) + 1) cmdt) of
           None \<Rightarrow> None
         | Some a \<Rightarrow> Some (Some a))
      else Some None)"

text \<open>
  \<open>mruncmd\<close>. The command text is read when the function starts; the bound functions
  are taken not to rewrite the command line while the table is scanned. The count is the
  \<open>long\<close> of \<open>wcstol\<close> converted to \<open>int\<close>, and 1 where that is 0.
\<close>

definition mruncmd ::
  "config \<Rightarrow> env \<Rightarrow> (Action \<Rightarrow> 'a editor_scheme \<Rightarrow> 'a editor_scheme option) \<Rightarrow> wchar list
     \<Rightarrow> 'a editor_scheme \<Rightarrow> 'a editor_scheme option" where
  "mruncmd cfg env call buf e =
     (let (v, cmdt) = wcstol env buf;
          cnt = (if int32 v = 0 then 1 else int32 v)
      in case cmd_arg env cmdt of
           None \<Rightarrow> None
         | Some a \<Rightarrow>
             mruncmd_loop cfg env call cmdt (cmdlen_of cmdt) a cnt (buffer_actions cfg) e)"

text \<open>A state that also records which actions were invoked, in order.\<close>

record traced = editor +
  trace :: "Action list"

definition log_call :: "Action \<Rightarrow> traced \<Rightarrow> traced option" where
  "log_call ac s = Some (s\<lparr>trace := trace s @ [ac]\<rparr>)"

definition traced_start :: traced where
  "traced_start = \<lparr>mode = MODE_COMMAND, heap = Map.empty, buflist = None, curbuf = None,
                    cmdbuf = None, repcnt = 0, next_addr = 0, trace = []\<rparr>"

section \<open>The bound functions and the main loop\<close>

text \<open>The other members of the argument union. An integer read from a union that holds
  a pointer is not determined.\<close>

definition arg_i :: "Arg \<Rightarrow> int option" where
  "arg_i a =
     (case a of
        Arg_null \<Rightarrow> Some 0
      | Arg_xy dx dy \<Rightarrow> Some dx
      | Arg_i i \<Rightarrow> Some i
      | Arg_v t \<Rightarrow> None
      | Arg_w t \<Rightarrow> None
      | Arg_m m \<Rightarrow> Some (case m of MARKER_START \<Rightarrow> 0 | MARKER_MIDDLE \<Rightarrow> 1 | MARKER_END \<Rightarrow> 2))"

definition arg_xy :: "Arg \<Rightarrow> (int \<times> int) option" where
  "arg_xy a =
     (case a of
        Arg_xy dx dy \<Rightarrow> Some (dx, dy)
      | Arg_v t \<Rightarrow> None
      | Arg_w t \<Rightarrow> None
      | _ \<Rightarrow> (case arg_i a of None \<Rightarrow> None | Some i \<Rightarrow> Some (i, 0)))"

definition arg_w :: "Arg \<Rightarrow> wchar list option option" where
  "arg_w a =
     (case a of
        Arg_w t \<Rightarrow> Some (Some t)
      | Arg_v t \<Rightarrow> None
      | _ \<Rightarrow> (case arg_v a of None \<Rightarrow> None | Some v \<Rightarrow> Some None))"

text \<open>
  \<open>mfreebuf\<close> takes the buffer out of the chain of its neighbours. The buffer itself
  and its lines stay allocated; its path is freed, and the model keeps the string.
\<close>

definition mfreebuf :: "nat option \<Rightarrow> 'a editor_scheme \<Rightarrow> 'a editor_scheme option" where
  "mfreebuf buf e =
     (case buf of
        None \<Rightarrow> Some e
      | Some p \<Rightarrow> do {
          b \<leftarrow> heap e p;
          e1 \<leftarrow> (case prev_b b of
                   None \<Rightarrow> Some e
                 | Some q \<Rightarrow> do { pb \<leftarrow> heap e q; Some (put q (pb\<lparr>next_b := next_b b\<rparr>) e) });
          e2 \<leftarrow> (case next_b b of
                   None \<Rightarrow> Some e1
                 | Some q \<Rightarrow> do { nb \<leftarrow> heap e1 q; Some (put q (nb\<lparr>prev_b := prev_b b\<rparr>) e1) });
          Some (if curbuf e2 = Some p then e2\<lparr>curbuf := next_b b\<rparr> else e2)
        })"

definition bufsel :: "int \<Rightarrow> 'a editor_scheme \<Rightarrow> 'a editor_scheme option" where
  "bufsel i e =
     (if i < 0 then do {
        p \<leftarrow> curbuf e;
        b \<leftarrow> heap e p;
        Some (case prev_b b of None \<Rightarrow> e | Some q \<Rightarrow> e\<lparr>curbuf := Some q\<rparr>)
      } else if i > 0 then do {
        p \<leftarrow> curbuf e;
        b \<leftarrow> heap e p;
        Some (case next_b b of None \<Rightarrow> e | Some q \<Rightarrow> e\<lparr>curbuf := Some q\<rparr>)
      } else Some e)"

definition bufdel :: "int \<Rightarrow> 'a editor_scheme \<Rightarrow> 'a editor_scheme option" where
  "bufdel i e = (if i = 0 then mfreebuf (curbuf e) e else Some e)"

text \<open>\<open>readstr\<close> feeds the bytes of its argument to \<open>minsert\<close>; a \<open>char\<close> of 128 or
  more is negative and becomes a large key code.\<close>

definition char_key :: "char \<Rightarrow> wchar" where
  "char_key c = (if of_char c < (128 :: nat) then of_char c else 4294967040 + of_char c)"

fun readstr ::
  "config \<Rightarrow> env \<Rightarrow> (wchar list \<Rightarrow> 'a editor_scheme \<Rightarrow> 'a editor_scheme option) \<Rightarrow> string
     \<Rightarrow> 'a editor_scheme \<Rightarrow> 'a editor_scheme option" where
  "readstr cfg env runcmd [] e = Some e"
| "readstr cfg env runcmd (c # cs) e =
     (case minsert cfg env runcmd (curbuf e) (char_key c) e of
        None \<Rightarrow> None
      | Some e' \<Rightarrow> readstr cfg env runcmd cs e')"

text \<open>
  \<open>find\<close>: the first line from the current one on that the pattern matches; \<open>y\<close>
  starts at row plus scroll offset and counts the lines passed, and is the row delta handed
  to \<open>mmove\<close>.
\<close>

fun find_loop :: "env \<Rightarrow> string \<Rightarrow> Line list \<Rightarrow> int \<Rightarrow> int option option" where
  "find_loop env re [] yy = Some None"
| "find_loop env re (ln # ls) yy =
     (case wcs (data ln) of
        None \<Rightarrow> None
      | Some t \<Rightarrow>
          (case wcsrtombs env t of
             None \<Rightarrow> None
           | Some bytes \<Rightarrow> if regexec env re bytes then Some (Some yy) else find_loop env re ls (yy + 1)))"

definition find :: "env \<Rightarrow> string \<Rightarrow> 'a editor_scheme \<Rightarrow> 'a editor_scheme option" where
  "find env re e =
     (if \<not> regcomp_ok env re then Some e
      else do {
        p \<leftarrow> curbuf e;
        b \<leftarrow> heap e p;
        hit \<leftarrow> find_loop env re (drop (curline b) (lines b)) (cy_of b + starty_of b);
        (case hit of None \<Rightarrow> Some e | Some yy \<Rightarrow> motion env 0 yy e)
      })"

definition handlemouse :: "env \<Rightarrow> 'a editor_scheme \<Rightarrow> 'a editor_scheme option" where
  "handlemouse env e =
     (case mouse_click env of
        None \<Rightarrow> Some e
      | Some (mx, my) \<Rightarrow> do {
          p \<leftarrow> curbuf e;
          b \<leftarrow> heap e p;
          motion env (mx - linexoff b) (my - (cy_of b + starty_of b)) e
        })"

text \<open>The cast \<open>(Mode)ac->arg.i\<close> of \<open>setmode\<close>. A number that names none of the four
  modes has no result: the status line is painted from \<open>modes[mode]\<close>, an array of four
  names, after every key.\<close>

definition mode_of_int :: "int \<Rightarrow> Mode option" where
  "mode_of_int i =
     (if i = 0 then Some MODE_NORMAL else if i = 1 then Some MODE_INSERT
      else if i = 2 then Some MODE_SELECT else if i = 3 then Some MODE_COMMAND else None)"

text \<open>The state of the program together with the files.\<close>

record world = editor +
  files :: filesys

text \<open>
  \<open>call_fn k cfg env ac\<close> is \<open>ac->fn(ac)\<close>. The bound function \<open>command\<close> and every
  newline that reaches \<open>minsert\<close> in command mode run \<open>mruncmd\<close>, which calls bound
  functions again; \<open>k\<close> bounds the depth of that nesting, and \<open>None\<close> is also the
  answer when the depth is used up. \<open>repaint\<close> only draws. \<open>quit\<close> ends the
  process: there is no state after it. A marker outside the three known ones matches no
  case of \<open>mjump\<close>.
\<close>

primrec call_fn :: "nat \<Rightarrow> config \<Rightarrow> env \<Rightarrow> Action \<Rightarrow> world \<Rightarrow> world option" where
  "call_fn 0 cfg env ac w = None"
| "call_fn (Suc k) cfg env ac w =
     (case fn_a ac of
        Fn_repaint \<Rightarrow> Some w
      | Fn_handlemouse \<Rightarrow> handlemouse env w
      | Fn_quit \<Rightarrow> None
      | Fn_setmode \<Rightarrow> do { i \<leftarrow> arg_i (arg_a ac); m \<leftarrow> mode_of_int i; setmode m w }
      | Fn_save \<Rightarrow> do { fs \<leftarrow> save cfg env ac w (files w); Some (w\<lparr>files := fs\<rparr>) }
      | Fn_readfile \<Rightarrow> readfile cfg env (files w) ac w
      | Fn_readstr \<Rightarrow> do {
          v \<leftarrow> arg_v (arg_a ac);
          (case v of
             None \<Rightarrow> Some w
           | Some t \<Rightarrow> readstr cfg env (mruncmd cfg env (call_fn k cfg env)) t w)
        }
      | Fn_find \<Rightarrow> do {
          v \<leftarrow> arg_v (arg_a ac);
          (case v of None \<Rightarrow> Some w | Some re \<Rightarrow> find env re w)
        }
      | Fn_command \<Rightarrow> do {
          v \<leftarrow> arg_w (arg_a ac);
          (case v of None \<Rightarrow> Some w | Some t \<Rightarrow> mruncmd cfg env (call_fn k cfg env) t w)
        }
      | Fn_motion \<Rightarrow> do { (dx, dy) \<leftarrow> arg_xy (arg_a ac); motion env dx dy w }
      | Fn_jump \<Rightarrow> do {
          i \<leftarrow> arg_i (arg_a ac);
          if i = 0 then jump MARKER_START w
          else if i = 1 then jump MARKER_MIDDLE w
          else if i = 2 then jump MARKER_END w
          else Some w
        }
      | Fn_coc \<Rightarrow> coc env w
      | Fn_pgup \<Rightarrow> pgup env w
      | Fn_pgdown \<Rightarrow> pgdown env w
      | Fn_bufsel \<Rightarrow> do { i \<leftarrow> arg_i (arg_a ac); bufsel i w }
      | Fn_bufdel \<Rightarrow> do { i \<leftarrow> arg_i (arg_a ac); bufdel i w }
      | Fn_insert \<Rightarrow> do {
          i \<leftarrow> arg_i (arg_a ac);
          insert_key cfg env (mruncmd cfg env (call_fn k cfg env)) (nat (i mod 4294967296)) w
        }
      | Fn_freeln \<Rightarrow> freeln w
      | Fn_append \<Rightarrow> append w
      | Fn_newln \<Rightarrow> newln cfg env (mruncmd cfg env (call_fn k cfg env)) w)"

text \<open>The loop of \<open>main\<close> over the table in Normal mode.\<close>

fun key_loop :: "nat \<Rightarrow> config \<Rightarrow> env \<Rightarrow> wchar \<Rightarrow> Action list \<Rightarrow> world \<Rightarrow> world option" where
  "key_loop k cfg env c [] w = Some w"
| "key_loop k cfg env c (ac # acs) w =
     (if int c = key_a ac mod 4294967296 then
        (case mrepeat cfg (call_fn k cfg env) ac (if repcnt w \<noteq> 0 then repcnt w else 1) w of
           None \<Rightarrow> None
         | Some w' \<Rightarrow> key_loop k cfg env c acs w')
      else key_loop k cfg env c acs w)"

text \<open>\<open>isdigit(key)\<close> in the loop of \<open>main\<close>: the decimal digits among the values of
  \<open>unsigned char\<close>, and the answer of the C library beyond them.\<close>

definition isdigit :: "env \<Rightarrow> wchar \<Rightarrow> bool option" where
  "isdigit env c = (if c < 256 then Some (is_digit c) else isdigit_beyond env c)"

text \<open>One turn of the loop of \<open>main\<close> for the key that \<open>get_wch\<close> stored
  (painting left out); the value of \<open>ERR\<close>, which is -1, is skipped.\<close>

definition key_event :: "nat \<Rightarrow> config \<Rightarrow> env \<Rightarrow> wchar \<Rightarrow> world \<Rightarrow> world option" where
  "key_event k cfg env c w =
     (if int c = 4294967295 then Some w else
      (case mode w of
        MODE_NORMAL \<Rightarrow>
          (let w1 = (if c = ESC cfg \<or> c = 10 then w\<lparr>repcnt := 0\<rparr> else w) in
           case isdigit env c of
             None \<Rightarrow> None
           | Some dg \<Rightarrow>
               if dg \<and> \<not> (c = 48 \<and> repcnt w1 = 0) then
                 Some (w1\<lparr>repcnt := min (int32 (10 * repcnt w1 + (int c - 48))) (max_cmd_repetition cfg)\<rparr>)
               else (case key_loop k cfg env c (buffer_actions cfg) w1 of
                       None \<Rightarrow> None
                     | Some w2 \<Rightarrow> Some (w2\<lparr>repcnt := 0\<rparr>)))
      | MODE_SELECT \<Rightarrow> Some (if c = ESC cfg then w\<lparr>mode := MODE_NORMAL\<rparr> else w)
      | MODE_INSERT \<Rightarrow>
          if c = ESC cfg then Some (w\<lparr>mode := MODE_NORMAL\<rparr>)
          else minsert cfg env (mruncmd cfg env (call_fn k cfg env)) (curbuf w) c w
      | MODE_COMMAND \<Rightarrow>
          if c = ESC cfg then Some (w\<lparr>mode := MODE_NORMAL\<rparr>)
          else minsert cfg env (mruncmd cfg env (call_fn k cfg env)) (cmdbuf w) c w))"

text \<open>The start of \<open>main\<close>: the command buffer, one buffer for each file named on the
  command line, and a scratch buffer when no file was named.\<close>

definition init_world :: "filesys \<Rightarrow> world" where
  "init_world fs = \<lparr>mode = MODE_NORMAL, heap = Map.empty, buflist = None, curbuf = None,
                     cmdbuf = None, repcnt = 0, next_addr = 0, files = fs\<rparr>"

fun load_args :: "config \<Rightarrow> env \<Rightarrow> string list \<Rightarrow> world \<Rightarrow> world option" where
  "load_args cfg env [] w = Some w"
| "load_args cfg env (a # as) w = do {
     (p, w1) \<leftarrow> mnewbuf cfg w;
     b \<leftarrow> heap w1 p;
     (r, b') \<leftarrow> mreadbuf cfg env (files w1) b a;
     load_args cfg env as (put p b' (w1\<lparr>curbuf := Some p\<rparr>))
   }"

definition main_init :: "config \<Rightarrow> env \<Rightarrow> string list \<Rightarrow> filesys \<Rightarrow> world option" where
  "main_init cfg env argv fs = do {
     (c, w1) \<leftarrow> mnewbuf cfg (init_world fs);
     cb \<leftarrow> heap w1 c;
     w3 \<leftarrow> load_args cfg env argv ((put c (cb\<lparr>linexoff := 0\<rparr>) w1)\<lparr>cmdbuf := Some c\<rparr>);
     if curbuf w3 = None then do {
       (p, w4) \<leftarrow> mnewbuf cfg w3;
       Some (w4\<lparr>curbuf := Some p\<rparr>)
     } else Some w3
   }"

text \<open>A run of the main loop: each event is a key together with the surroundings at that
  moment (window size, mouse, locale).\<close>

fun run_events :: "nat \<Rightarrow> config \<Rightarrow> (env \<times> wchar) list \<Rightarrow> world \<Rightarrow> world option" where
  "run_events k cfg [] w = Some w"
| "run_events k cfg ((env, c) # evs) w =
     (case key_event k cfg env c w of None \<Rightarrow> None | Some w' \<Rightarrow> run_events k cfg evs w')"

section \<open>Sequences of operations\<close>

text \<open>
  Sequences of editing operations on the current buffer: key presses that reach
  \<open>minsert\<close>, cursor motions, marker jumps, line deletion and mode switches.
\<close>

datatype op =
    Insert wchar
  | Motion int int
  | Jump Marker
  | Freeln
  | Setmode Mode
  | Append
  | Newln
  | Coc
  | Pgup
  | Pgdown

fun exec ::
  "config \<Rightarrow> env \<Rightarrow> (wchar list \<Rightarrow> 'a editor_scheme \<Rightarrow> 'a editor_scheme option) \<Rightarrow> op \<Rightarrow> 'a editor_scheme \<Rightarrow> 'a editor_scheme option" where
  "exec cfg env runcmd (Insert k) e = insert_key cfg env runcmd k e"
| "exec cfg env runcmd (Motion dx dy) e = motion env dx dy e"
| "exec cfg env runcmd (Jump m) e = jump m e"
| "exec cfg env runcmd Freeln e = freeln e"
| "exec cfg env runcmd (Setmode m) e = setmode m e"
| "exec cfg env runcmd Append e = append e"
| "exec cfg env runcmd Newln e = newln cfg env runcmd e"
| "exec cfg env runcmd Coc e = coc env e"
| "exec cfg env runcmd Pgup e = pgup env e"
| "exec cfg env runcmd Pgdown e = pgdown env e"

fun run ::
  "config \<Rightarrow> env \<Rightarrow> (wchar list \<Rightarrow> 'a editor_scheme \<Rightarrow> 'a editor_scheme option) \<Rightarrow> op list \<Rightarrow> 'a editor_scheme \<Rightarrow> 'a editor_scheme option" where
  "run cfg env runcmd [] e = Some e"
| "run cfg env runcmd (a # as) e =
     (case exec cfg env runcmd a e of None \<Rightarrow> None | Some e' \<Rightarrow> run cfg env runcmd as e')"

text \<open>What a state shows of its current buffer: column, row, scroll offset, the position
  of the current line and the arrays of all lines.\<close>

definition view :: "'a editor_scheme \<Rightarrow> nat option \<Rightarrow> (int \<times> int \<times> int \<times> nat \<times> wchar list list) option" where
  "view e buf = do {
     p \<leftarrow> buf;
     b \<leftarrow> heap e p;
     Some (cx_of b, cy_of b, starty_of b, curline b, map data (lines b))
   }"

definition curlen :: "'a editor_scheme \<Rightarrow> nat option" where
  "curlen e = do {
     p \<leftarrow> curbuf e;
     b \<leftarrow> heap e p;
     ln \<leftarrow> curln b;
     wcslen (data ln)
   }"

definition curcol :: "'a editor_scheme \<Rightarrow> int option" where
  "curcol e = do {
     p \<leftarrow> curbuf e;
     b \<leftarrow> heap e p;
     Some (cx_of b)
   }"

text \<open>A configuration and a terminal for concrete runs: tab stops every four columns,
  auto-indent on, lines of sixteen code units, at most 100 repetitions, a table that binds
  \<open>i\<close> to Insert mode, \<open>dd\<close> to line deletion and \<open>j\<close> to a motion; an 80 by 22
  buffer window, the white space and the 7-bit characters of the C locale, and no shell.\<close>

definition act_dd :: Action where
  "act_dd = \<lparr>cmd_a = Some [100, 100], key_a = 0, fn_a = Fn_freeln, arg_a = Arg_null\<rparr>"

definition act_j :: Action where
  "act_j = \<lparr>cmd_a = Some [106], key_a = 106, fn_a = Fn_motion, arg_a = Arg_xy 0 1\<rparr>"

definition act_i :: Action where
  "act_i = \<lparr>cmd_a = None, key_a = 105, fn_a = Fn_setmode, arg_a = Arg_i 1\<rparr>"

definition cfg4 :: config where
  "cfg4 = \<lparr>tab_width = 4, auto_indent = True, default_linebuf_size = 16,
           max_cmd_repetition = 100, backup_on_write = False, backup_path = [],
           buffer_actions = [act_i, act_dd, act_j], ESC = 27\<rparr>"

definition env80 :: env where
  "env80 = \<lparr>bufwin_row = 22, bufwin_col = 80,
            iswspace = (\<lambda>c. c = 9 \<or> c = 10 \<or> c = 11 \<or> c = 12 \<or> c = 13 \<or> c = 32),
            wcsrtombs = (\<lambda>w. if list_all (\<lambda>c. c < 128) w then Some (map char_of w) else None),
            mexec = (\<lambda>c. None), can_write = (\<lambda>f. True), stdin_text = [],
            mouse_click = None, regcomp_ok = (\<lambda>r. False), regexec = (\<lambda>r t. False),
            isdigit_beyond = (\<lambda>c. Some False)\<rparr>"

definition no_cmd :: "wchar list \<Rightarrow> 'a editor_scheme \<Rightarrow> 'a editor_scheme option" where
  "no_cmd txt e = Some e"

text \<open>The scroll invariant: the row of the current line lies in the window that starts
  at \<open>starty\<close> and has the height of the buffer window.\<close>

definition in_view :: "env \<Rightarrow> Buffer \<Rightarrow> bool" where
  "in_view env b = (starty_of b \<le> cy_of b \<and> cy_of b < starty_of b + bufwin_row env)"

definition row_in_view :: "env \<Rightarrow> 'a editor_scheme \<Rightarrow> bool option" where
  "row_in_view env e = do {
     p \<leftarrow> curbuf e;
     b \<leftarrow> heap e p;
     Some (in_view env b)
   }"

text \<open>Every line is a terminated string that takes at most as many visual rows as the
  buffer window has.\<close>

definition rows_fit :: "env \<Rightarrow> Line list \<Rightarrow> bool" where
  "rows_fit env ls =
     list_all (\<lambda>ln. case mnumvislines env ln of None \<Rightarrow> False | Some v \<Rightarrow> v \<le> bufwin_row env) ls"

text \<open>A line that \<open>save\<close> and \<open>mreadbuf\<close> can carry through a file unchanged: a
  terminated string without a newline that, with its newline, fits into the read buffer
  of \<open>mreadbuf\<close>.\<close>

definition clean_line :: "config \<Rightarrow> Line \<Rightarrow> bool" where
  "clean_line cfg ln =
     (case wcs (data ln) of
        None \<Rightarrow> False
      | Some t \<Rightarrow> 10 \<notin> set t \<and> length t + 2 \<le> default_linebuf_size cfg)"

text \<open>Every buffer in the store has at least one line.\<close>

definition nonempty_lines :: "'a editor_scheme \<Rightarrow> bool" where
  "nonempty_lines e = (\<forall>p b. heap e p = Some b \<longrightarrow> lines b \<noteq> [])"

text \<open>A step keeps that property: whenever it returns, from a state where every buffer
  has a line, every buffer has a line afterwards.\<close>

definition keeps_lines :: "('a editor_scheme \<Rightarrow> 'a editor_scheme option) \<Rightarrow> bool" where
  "keeps_lines f = (\<forall>s s'. f s = Some s' \<longrightarrow> nonempty_lines s \<longrightarrow> nonempty_lines s')"

text \<open>A terminal of two rows and four columns for the buffer window.\<close>

definition env_small :: env where
  "env_small = \<lparr>bufwin_row = 2, bufwin_col = 4,
            iswspace = (\<lambda>c. c = 9 \<or> c = 10 \<or> c = 11 \<or> c = 12 \<or> c = 13 \<or> c = 32),
            wcsrtombs = (\<lambda>w. None), mexec = (\<lambda>c. None), can_write = (\<lambda>f. True),
            stdin_text = [], mouse_click = None, regcomp_ok = (\<lambda>r. False),
            regexec = (\<lambda>r t. False), isdigit_beyond = (\<lambda>c. Some False)\<rparr>"

definition line_ab :: Line where
  "line_ab = \<lparr>length_ln = 16, data = [97, 98, 0, 0, 0, 0, 0, 0, 0, 0, 0, 0, 0, 0, 0, 0]\<rparr>"

definition buf_ab :: Buffer where
  "buf_ab = \<lparr>next_b = None, prev_b = None, path = None, lines = [line_ab], curline = 0,
             cursor = zero_Cursor, linexoff = 4\<rparr>"

definition ed_ab :: editor where
  "ed_ab = \<lparr>mode = MODE_INSERT, heap = [0 \<mapsto> buf_ab], buflist = Some 0, curbuf = Some 0,
            cmdbuf = None, repcnt = 0, next_addr = 1\<rparr>"

definition buf_three :: Buffer where
  "buf_three = \<lparr>next_b = None, prev_b = None, path = None,
     lines = [\<lparr>length_ln = 16, data = [97, 98, 0, 0, 0, 0, 0, 0, 0, 0, 0, 0, 0, 0, 0, 0]\<rparr>,
              \<lparr>length_ln = 16, data = [99, 100, 0, 0, 0, 0, 0, 0, 0, 0, 0, 0, 0, 0, 0, 0]\<rparr>,
              \<lparr>length_ln = 16, data = [101, 102, 0, 0, 0, 0, 0, 0, 0, 0, 0, 0, 0, 0, 0, 0]\<rparr>],
     curline = 0, cursor = zero_Cursor, linexoff = 4\<rparr>"

text \<open>Two more table entries: \<open>w\<close> saves the current buffer to its own path, \<open>e\<close>
  loads the file \<open>f\<close>.\<close>

definition act_w :: Action where
  "act_w = \<lparr>cmd_a = Some [119], key_a = 0, fn_a = Fn_save, arg_a = Arg_null\<rparr>"

definition act_e :: Action where
  "act_e = \<lparr>cmd_a = Some [101], key_a = 0, fn_a = Fn_readfile, arg_a = Arg_v ''f''\<rparr>"

text \<open>The lines of the current buffer as strings.\<close>

definition contents :: "'a editor_scheme \<Rightarrow> wchar list option list option" where
  "contents e = do {
     p \<leftarrow> curbuf e;
     b \<leftarrow> heap e p;
     Some (map (\<lambda>ln. wcs (data ln)) (lines b))
   }"

section \<open>Basic facts\<close>

text \<open>Reading the cursor after writing it, and what the writes leave alone.\<close>

lemma cursor_access [simp]:
  "cx_of (set_cx b v) = v" "cy_of (set_cx b v) = cy_of b" "starty_of (set_cx b v) = starty_of b"
  "cx_of (set_cy b v) = cx_of b" "cy_of (set_cy b v) = v" "starty_of (set_cy b v) = starty_of b"
  "cx_of (set_starty b v) = cx_of b" "cy_of (set_starty b v) = cy_of b"
  "starty_of (set_starty b v) = v"
  "lines (set_cx b v) = lines b" "lines (set_cy b v) = lines b" "lines (set_starty b v) = lines b"
  "curline (set_cx b v) = curline b" "curline (set_cy b v) = curline b"
  "curline (set_starty b v) = curline b"
  "cy_of (b\<lparr>curline := i\<rparr>) = cy_of b" "starty_of (b\<lparr>curline := i\<rparr>) = starty_of b"
  "cx_of (b\<lparr>curline := i\<rparr>) = cx_of b"
  by (simp_all add: cx_of_def cy_of_def starty_of_def set_cx_def set_cy_def set_starty_def)

lemma curln_set_cx [simp]: "curln (set_cx b v) = curln b"
  by (simp add: curln_def)

lemma in_view_set_cx [simp]: "in_view env (set_cx b v) = in_view env b"
  by (simp add: in_view_def)

lemma c_div_pos: "0 \<le> a \<Longrightarrow> 0 < b \<Longrightarrow> c_div a b = a div b"
  by (cases "a = 0") (simp_all add: c_div_def)

lemma c_mod_pos: "0 \<le> a \<Longrightarrow> 0 < b \<Longrightarrow> c_mod a b = a mod b"
  by (simp add: c_mod_def c_div_pos minus_mult_div_eq_mod)

lemma int32_id: "0 \<le> v \<Longrightarrow> v < 2147483648 \<Longrightarrow> int32 v = v"
  by (simp add: int32_def)

lemma clamp_long_id: "0 \<le> v \<Longrightarrow> v < 2147483648 \<Longrightarrow> clamp_long v = v"
  by (simp add: clamp_long_def)

text \<open>A terminated string is its content, a zero, and whatever follows in the array.\<close>

lemma wcs_Some_iff:
  "wcs d = Some t \<longleftrightarrow> (\<exists>r. d = t @ 0 # r \<and> 0 \<notin> set t)"
proof
  assume "wcs d = Some t"
  then have z: "0 \<in> set d" and t: "t = takeWhile (\<lambda>c. c \<noteq> 0) d"
    by (auto simp: wcs_def split: if_splits)
  have "d = t @ dropWhile (\<lambda>c. c \<noteq> 0) d" unfolding t by simp
  moreover have "dropWhile (\<lambda>c. c \<noteq> 0) d \<noteq> []" using z by (simp add: dropWhile_eq_Nil_conv)
  moreover have "hd (dropWhile (\<lambda>c. c \<noteq> 0) d) = 0"
    using hd_dropWhile [of "\<lambda>c. c \<noteq> 0" d] calculation(2) by auto
  moreover have "0 \<notin> set t" unfolding t by (auto dest: set_takeWhileD)
  ultimately show "\<exists>r. d = t @ 0 # r \<and> 0 \<notin> set t"
    by (metis list.collapse)
next
  assume "\<exists>r. d = t @ 0 # r \<and> 0 \<notin> set t"
  then obtain r where d: "d = t @ 0 # r" and t: "0 \<notin> set t" by blast
  have "takeWhile (\<lambda>c. c \<noteq> 0) (t @ 0 # r) = t"
    using t by (induction t) auto
  then show "wcs d = Some t" unfolding d by (simp add: wcs_def)
qed

lemma wcslen_Some_iff:
  "wcslen d = Some n \<longleftrightarrow> (\<exists>t. wcs d = Some t \<and> length t = n)"
  by (auto simp: wcslen_def wcs_def)

lemma wcs_zeros: "0 < n \<Longrightarrow> wcs (replicate n 0) = Some []"
  by (cases n) (simp_all add: wcs_def)

lemma wcs_zeros_pad: "0 \<notin> set t \<Longrightarrow> 0 < n \<Longrightarrow> wcs (t @ replicate n 0) = Some t"
  by (subst wcs_Some_iff) (cases n, auto)

text \<open>The room for code units in the two kinds of allocation.\<close>

lemma data_capacity_fresh:
  "data_capacity (sizeof_wchar_t * (sizeof_Line + n)) = n + 18"
  by (simp add: data_capacity_def sizeof_wchar_t_def sizeof_Line_def)

lemma data_capacity_read:
  "data_capacity (sizeof_Line + n * sizeof_wchar_t) = n"
  by (simp add: data_capacity_def sizeof_wchar_t_def sizeof_Line_def)

text \<open>The buffer that \<open>mnewbuf\<close> creates.\<close>

lemma mnewbuf_heap:
  assumes "mnewbuf cfg e = Some (p, e1)"
  shows "\<exists>b. heap e1 p = Some b
           \<and> lines b = [\<lparr>length_ln = default_linebuf_size cfg,
                          data = replicate (default_linebuf_size cfg + 18) 0\<rparr>]
           \<and> curline b = 0 \<and> path b = None \<and> cursor b = zero_Cursor"
  using assms
  by (auto simp: mnewbuf_def put_def Let_def data_capacity_fresh
      split: option.splits bind_splits if_splits)

section \<open>Backspace at the start of the buffer\<close>

text \<open>
  Claim C9. Backspace at column 0 of a line that has no previous line changes nothing:
  \<open>minsert\<close> returns the state it was given, so line contents, line structure and
  cursor are the same. The current line is a terminated string, as \<open>minsert\<close> takes
  its length before it looks at the key.
\<close>

theorem backspace_at_buffer_start_is_noop:
  assumes "heap e p = Some b" and "curln b = Some ln" and "wcslen (data ln) = Some n"
    and "cx_of b = 0" and "curline b = 0"
  shows "minsert cfg env runcmd (Some p) KEY_BACKSPACE e = Some e"
  using assms by (simp add: minsert_def)

theorem backspace_at_buffer_start_witness:
  "heap ed_ab 0 = Some buf_ab \<and> curln buf_ab = Some line_ab \<and> wcslen (data line_ab) = Some 2
   \<and> cx_of buf_ab = 0 \<and> curline buf_ab = 0
   \<and> minsert cfg4 env80 no_cmd (Some 0) KEY_BACKSPACE ed_ab = Some ed_ab"
proof -
  have h1: "heap ed_ab 0 = Some buf_ab" by (simp add: ed_ab_def)
  have h2: "curln buf_ab = Some line_ab" by (simp add: curln_def buf_ab_def)
  have h3: "wcslen (data line_ab) = Some 2" by (simp add: wcslen_def line_ab_def)
  have h4: "cx_of buf_ab = 0" by (simp add: cx_of_def buf_ab_def zero_Cursor_def zero_Coord_def)
  have h5: "curline buf_ab = 0" by (simp add: buf_ab_def)
  from backspace_at_buffer_start_is_noop [OF h1 h2 h3 h4 h5] h1 h2 h3 h4 h5
  show ?thesis by simp
qed

section \<open>Newline with auto-indent\<close>

text \<open>
  Claim C2 says that the new line starts with \<open>n div tab_width\<close> tabs followed by
  \<open>n mod tab_width\<close> spaces and then the copied tail. In \<open>mindent\<close> the loop that
  writes the spaces goes on from the index where the tabs ended and stops at
  \<open>spaces\<close>, not at \<open>tabs + spaces\<close>. With tab width 4, the line "<tab><space>ab"
  and the cursor at column 2 the measured width is 5, one tab and one space. The new line
  gets the tab only; the tail "ab" is copied to index 2, behind the terminator left at
  index 1, so the content of the new line is a single tab and the cursor column is 2.
  (With \<open>default_linebuf_size = 16\<close> the array of a line has 34 code units.)
\<close>

theorem auto_indent_loses_spaces_after_tabs:
  "startup cfg4
     \<bind> run cfg4 env80 no_cmd [Setmode MODE_INSERT, Insert 9, Insert 32, Insert 97, Insert 98,
                                Motion (- 2) 0, Insert 10]
     \<bind> (\<lambda>e. view e (curbuf e))
   = Some (2, 1, 0, 1,
       [[9, 32, 0, 98] @ replicate 30 0,
        [9, 0, 97, 98] @ replicate 30 0])"
  by code_simp

text \<open>The loop that writes one code unit into the indices from \<open>i\<close> up to \<open>hi\<close>.\<close>

lemma fill_loop_writes:
  "0 \<le> i \<Longrightarrow> hi \<le> int (length d) \<Longrightarrow>
   fill_loop d i hi v
     = Some (take (nat i) d @ replicate (nat (hi - i)) v @ drop (nat (max i hi)) d, max i hi)"
proof (induction d i hi v rule: fill_loop.induct)
  case (1 d i hi v)
  show ?case
  proof (cases "i < hi")
    case False
    then show ?thesis by (subst fill_loop.simps) (simp add: max_def)
  next
    case True
    have st: "store d i v = Some (d[nat i := v])"
      using True "1.prems" by (simp add: store_def)
    have ih: "fill_loop (d[nat i := v]) (i + 1) hi v
       = Some (take (nat (i + 1)) (d[nat i := v]) @ replicate (nat (hi - (i + 1))) v
               @ drop (nat (max (i + 1) hi)) (d[nat i := v]), max (i + 1) hi)"
      using "1.IH" [OF True st] "1.prems" by simp
    have i: "nat i < length d" using True "1.prems" by simp
    have a: "take (nat (i + 1)) (d[nat i := v]) = take (nat i) d @ [v]"
      using i "1.prems"(1) by (simp add: nat_add_distrib take_Suc_conv_app_nth)
    have b: "drop (nat (max (i + 1) hi)) (d[nat i := v]) = drop (nat (max i hi)) d"
      using True "1.prems"(1) by (simp add: max_def)
    have c: "[v] @ replicate (nat (hi - (i + 1))) v = replicate (nat (hi - i)) v"
    proof -
      have "nat (hi - i) = Suc (nat (hi - (i + 1)))" using True by simp
      then show ?thesis by simp
    qed
    have m: "max (i + 1) hi = max i hi" using True by simp
    show ?thesis
      using True st ih a b c m by (subst fill_loop.simps) (simp del: replicate.simps)
  qed
qed

text \<open>What \<open>mindent\<close> writes into a fresh line for a width \<open>n\<close>: \<open>n div tab_width\<close>
  tabs, and of the \<open>n mod tab_width\<close> spaces only those whose index is not below the
  number of tabs. The indentation is complete exactly when there is no tab or no space to
  write. The returned width counts all of them.\<close>

lemma mindent_writes:
  assumes "0 < tab_width cfg" and "0 \<le> n" and "n div tab_width cfg \<le> int N"
    and "n mod tab_width cfg \<le> int N"
  shows "mindent cfg (replicate N 0) n
     = Some (replicate (nat (n div tab_width cfg)) 9
             @ replicate (nat (n mod tab_width cfg) - nat (n div tab_width cfg)) 32
             @ replicate (N - max (nat (n div tab_width cfg)) (nat (n mod tab_width cfg))) 0,
             n div tab_width cfg + n mod tab_width cfg)"
proof -
  define tabs where "tabs = n div tab_width cfg"
  define spaces where "spaces = n mod tab_width cfg"
  have nn: "0 \<le> tabs" "0 \<le> spaces" using assms(1,2) by (simp_all add: tabs_def spaces_def pos_imp_zdiv_nonneg_iff)
  have cd: "c_div n (tab_width cfg) = tabs" "c_mod n (tab_width cfg) = spaces"
    using assms(1,2) by (simp_all add: c_div_pos c_mod_pos tabs_def spaces_def)
  have f1: "fill_loop (replicate N 0) 0 tabs 9
      = Some (replicate (nat tabs) 9 @ replicate (N - nat tabs) 0, tabs)"
    using fill_loop_writes [of 0 tabs "replicate N 0" 9] assms(3) nn
    by (simp add: tabs_def [symmetric] max_def)
  have len1: "spaces \<le> int (length (replicate (nat tabs) (9::nat) @ replicate (N - nat tabs) 0))"
    using assms(3,4) nn by (simp add: tabs_def [symmetric] spaces_def [symmetric])
  have f2: "fill_loop (replicate (nat tabs) 9 @ replicate (N - nat tabs) 0) tabs spaces 32
      = Some (replicate (nat tabs) 9 @ replicate (nat spaces - nat tabs) 32
              @ replicate (N - max (nat tabs) (nat spaces)) 0, max tabs spaces)"
    using fill_loop_writes [OF nn(1) len1, of 32] nn
    by (auto simp: max_def nat_diff_distrib drop_replicate)
  show ?thesis
    unfolding mindent_def tabs_def [symmetric] spaces_def [symmetric]
    using assms(1) cd f1 f2 by (simp add: Let_def)
qed

section \<open>The cursor column and the length of the current line\<close>

text \<open>
  Claim C3 says that after every insert, delete and move operation the column is at most
  the length of the current line. Typing a tab, a space, the letter a and a newline in
  Insert mode (tab width 4, auto-indent on) leaves the cursor at column 2 of a line of
  length 1: the indentation written by \<open>mindent\<close> is shorter than the width it
  returns. No access of the run leaves the capacity of a line.
\<close>

theorem column_beyond_line_end_after_newline:
  "startup cfg4
     \<bind> run cfg4 env80 no_cmd [Setmode MODE_INSERT, Insert 9, Insert 32, Insert 97, Insert 10]
     \<bind> (\<lambda>e. Some (curcol e, curlen e))
   = Some (Some 2, Some 1)"
  by code_simp

text \<open>Two more runs that end with the column beyond the line: a zero key code, which
  \<open>minsert\<close> stores as a character, and the deletion of the current line.\<close>

lemma column_beyond_line_end_after_nul:
  "startup cfg4
     \<bind> run cfg4 env80 no_cmd [Setmode MODE_INSERT, Insert 97, Insert 98, Insert 0]
     \<bind> (\<lambda>e. Some (curcol e, curlen e))
   = Some (Some 3, Some 2)"
  by code_simp

lemma column_beyond_line_end_after_freeln:
  "startup cfg4
     \<bind> run cfg4 env80 no_cmd [Setmode MODE_INSERT, Insert 97, Insert 10, Motion 0 (- 1),
                                Insert 98, Insert 99, Freeln]
     \<bind> (\<lambda>e. Some (curcol e, curlen e))
   = Some (Some 2, Some 0)"
  by code_simp

text \<open>What does hold: whenever \<open>mmove\<close> returns, the column is inside the line it
  arrived at.\<close>

lemma mmove_column_in_line:
  assumes "mmove env b dx dy = Some b'"
  shows "\<exists>ln n. curln b' = Some ln \<and> wcslen (data ln) = Some n \<and> 0 \<le> cx_of b' \<and> cx_of b' \<le> int n"
proof -
  obtain b1 ln n where s: "curln b1 = Some ln" "wcslen (data ln) = Some n"
    "b' = set_cx b1 (max (min (cx_of b1) (int n)) 0)"
    using assms by (auto simp: mmove_def Let_def split: bind_splits)
  show ?thesis unfolding s(3) using s(1,2) by auto
qed

section \<open>Marker jumps\<close>

text \<open>
  Claim C6 says that \<open>mjump\<close> sets the column of the buffer it is given. The function
  works on \<open>curbuf\<close> whatever it is given. Here the current buffer holds "abcd" with
  the cursor at column 4 and the command buffer holds "xy" with the cursor at column 2;
  \<open>mjump\<close> is called with the command buffer and the marker Start. The command
  buffer keeps column 2, and the column of the current buffer becomes 0.
\<close>

theorem mjump_ignores_its_buffer:
  "startup cfg4
     \<bind> run cfg4 env80 no_cmd [Setmode MODE_INSERT, Insert 97, Insert 98, Insert 99, Insert 100,
                                Setmode MODE_COMMAND]
     \<bind> (\<lambda>e. minsert cfg4 env80 no_cmd (cmdbuf e) 120 e)
     \<bind> (\<lambda>e. minsert cfg4 env80 no_cmd (cmdbuf e) 121 e)
     \<bind> (\<lambda>e. mjump (cmdbuf e) MARKER_START e)
     \<bind> (\<lambda>e. Some (cmdbuf e \<noteq> curbuf e, view e (cmdbuf e), view e (curbuf e)))
   = Some (True,
       Some (2, 0, 0, 0, [[120, 121] @ replicate 32 0]),
       Some (0, 0, 0, 0, [[97, 98, 99, 100] @ replicate 30 0]))"
  by code_simp

text \<open>For the current buffer \<open>mjump\<close> sets the columns that the claim names,
  whatever buffer it is given.\<close>

lemma mjump_on_current_buffer:
  assumes "curbuf e = Some p" and "heap e p = Some b" and "curln b = Some ln"
    and "wcslen (data ln) = Some n"
  shows "mjump buf MARKER_START e = Some (put p (set_cx b 0) e)
     \<and> mjump buf MARKER_MIDDLE e = Some (put p (set_cx b (int (n div 2))) e)
     \<and> mjump buf MARKER_END e = Some (put p (set_cx b (int n)) e)"
  using assms by (simp add: mjump_def)

section \<open>The scroll invariant of mmove\<close>

text \<open>
  Claim C5 says that after any move the row of the current line is inside the window
  \<open>[starty, starty + height)\<close>. When \<open>mmove\<close> scrolls it changes \<open>starty\<close> by
  the number of visual rows of the line it arrives at, and a line can take more rows than
  the window has. In a buffer window of 2 rows and 4 columns, type "hello" and three
  newlines: the cursor is on row 3 with \<open>starty = 2\<close>, inside the window. Moving up by
  three lines arrives at "hello", which takes three visual rows, with row 0 and
  \<open>starty = - 2\<close>: the row is not below \<open>starty + 2\<close>.
\<close>

theorem long_line_leaves_view_counterexample:
  "startup cfg4
     \<bind> run cfg4 env_small no_cmd [Setmode MODE_INSERT, Insert 104, Insert 101, Insert 108,
                                   Insert 108, Insert 111, Insert 10, Insert 10, Insert 10]
     \<bind> (\<lambda>e. Some (row_in_view env_small e, view e (curbuf e) \<bind> (\<lambda>(c, r, s, i, d). Some (r, s)),
                    motion env_small 0 (- 3) e \<bind> row_in_view env_small,
                    motion env_small 0 (- 3) e \<bind> (\<lambda>e'. view e' (curbuf e'))
                      \<bind> (\<lambda>(c, r, s, i, d). Some (r, s))))
   = Some (Some True, Some (3, 2), Some False, Some (0, - 2))"
  by code_simp

lemma mnumvislines_pos:
  assumes "0 \<le> bufwin_col env" and "mnumvislines env ln = Some v"
  shows "1 \<le> v"
proof (cases "bufwin_col env = 0")
  case True
  then show ?thesis using assms(2) by (auto simp: mnumvislines_def split: bind_splits)
next
  case False
  then have pos: "0 < bufwin_col env" using assms(1) by simp
  obtain n where n: "wcslen (data ln) = Some n"
    and v: "v = c_div (int n + 4 + bufwin_col env - 1) (bufwin_col env)"
    using assms(2) False by (auto simp: mnumvislines_def Let_def split: bind_splits)
  have "v = (int n + 4 + bufwin_col env - 1) div bufwin_col env"
    using v pos by (simp add: c_div_pos)
  moreover have "bufwin_col env \<le> int n + 4 + bufwin_col env - 1" by simp
  ultimately show ?thesis using pos
    by (metis div_by_1 div_self less_irrefl zdiv_mono1 zero_less_one_class.zero_le_one int_one_le_iff_zero_less)
qed

lemma rows_fit_nth:
  assumes "rows_fit env ls" and "i < length ls" and "0 \<le> bufwin_col env"
  obtains v where "mnumvislines env (ls ! i) = Some v" and "1 \<le> v" and "v \<le> bufwin_row env"
proof -
  have "case mnumvislines env (ls ! i) of None \<Rightarrow> False | Some v \<Rightarrow> v \<le> bufwin_row env"
    using assms(1,2) by (simp add: rows_fit_def list_all_length)
  then obtain v where v: "mnumvislines env (ls ! i) = Some v" "v \<le> bufwin_row env"
    by (cases "mnumvislines env (ls ! i)") auto
  with mnumvislines_pos [OF assms(3) v(1)] that show ?thesis by blast
qed

lemma mmove_down_in_view:
  assumes "0 \<le> bufwin_col env" and "rows_fit env (lines b)" and "in_view env b"
    and "curline b < length (lines b)"
  shows "\<exists>b'. mmove_down env k b = Some b' \<and> in_view env b' \<and> lines b' = lines b
           \<and> curline b' < length (lines b') \<and> cx_of b' = cx_of b"
  using assms
proof (induction k arbitrary: b)
  case 0
  then show ?case by simp
next
  case (Suc k)
  show ?case
  proof (cases "curline b + 1 < length (lines b)")
    case False
    then show ?thesis using Suc.prems by simp
  next
    case True
    define b1 where "b1 = set_cy (b\<lparr>curline := curline b + 1\<rparr>) (cy_of b + 1)"
    have b1: "lines b1 = lines b" "curline b1 = curline b + 1" "cy_of b1 = cy_of b + 1"
      "starty_of b1 = starty_of b" "cx_of b1 = cx_of b"
      by (simp_all add: b1_def)
    show ?thesis
    proof (cases "cy_of b1 - starty_of b1 \<ge> bufwin_row env")
      case scroll: True
      obtain v where v: "mnumvislines env (lines b1 ! curline b1) = Some v" "1 \<le> v"
        "v \<le> bufwin_row env"
        using rows_fit_nth [OF Suc.prems(2) _ Suc.prems(1), of "curline b + 1"] True b1 by auto
      define b2 where "b2 = set_starty b1 (starty_of b1 + v)"
      have "in_view env b2"
        using Suc.prems(3) scroll v b1 by (simp add: in_view_def b2_def)
      moreover have "rows_fit env (lines b2)" "curline b2 < length (lines b2)"
        using Suc.prems(2) True b1 by (simp_all add: b2_def)
      ultimately obtain b' where "mmove_down env k b2 = Some b'" "in_view env b'"
        "lines b' = lines b2" "curline b' < length (lines b')" "cx_of b' = cx_of b2"
        using Suc.IH [OF Suc.prems(1), of b2] by blast
      moreover have "mmove_down env (Suc k) b = mmove_down env k b2"
        using True Suc.prems(4) scroll v(1) by (simp add: b1_def b2_def Let_def)
      ultimately show ?thesis using b1 by (simp add: b2_def)
    next
      case False
      have "in_view env b1"
        using Suc.prems(3) False b1 by (simp add: in_view_def)
      moreover have "rows_fit env (lines b1)" "curline b1 < length (lines b1)"
        using Suc.prems(2) True b1 by simp_all
      ultimately obtain b' where "mmove_down env k b1 = Some b'" "in_view env b'"
        "lines b' = lines b1" "curline b' < length (lines b')" "cx_of b' = cx_of b1"
        using Suc.IH [OF Suc.prems(1), of b1] by blast
      moreover have "mmove_down env (Suc k) b = mmove_down env k b1"
        using True Suc.prems(4) False by (simp add: b1_def Let_def)
      ultimately show ?thesis using b1 by simp
    qed
  qed
qed

lemma mmove_up_in_view:
  assumes "0 \<le> bufwin_col env" and "rows_fit env (lines b)" and "in_view env b"
    and "curline b < length (lines b)"
  shows "\<exists>b'. mmove_up env k b = Some b' \<and> in_view env b' \<and> lines b' = lines b
           \<and> curline b' < length (lines b') \<and> cx_of b' = cx_of b"
  using assms
proof (induction k arbitrary: b)
  case 0
  then show ?case by simp
next
  case (Suc k)
  show ?case
  proof (cases "0 < curline b")
    case False
    then show ?thesis using Suc.prems by simp
  next
    case True
    define b1 where "b1 = set_cy (b\<lparr>curline := curline b - 1\<rparr>) (cy_of b - 1)"
    have b1: "lines b1 = lines b" "curline b1 = curline b - 1" "cy_of b1 = cy_of b - 1"
      "starty_of b1 = starty_of b" "cx_of b1 = cx_of b"
      by (simp_all add: b1_def)
    have lt: "curline b - 1 < length (lines b)" using Suc.prems(4) by simp
    show ?thesis
    proof (cases "cy_of b1 < starty_of b1")
      case scroll: True
      obtain v where v: "mnumvislines env (lines b1 ! curline b1) = Some v" "1 \<le> v"
        "v \<le> bufwin_row env"
        using rows_fit_nth [OF Suc.prems(2) lt Suc.prems(1)] b1 by auto
      define b2 where "b2 = set_starty b1 (starty_of b1 - v)"
      have "in_view env b2"
        using Suc.prems(3) scroll v b1 by (simp add: in_view_def b2_def)
      moreover have "rows_fit env (lines b2)" "curline b2 < length (lines b2)"
        using Suc.prems(2) lt b1 by (simp_all add: b2_def)
      ultimately obtain b' where "mmove_up env k b2 = Some b'" "in_view env b'"
        "lines b' = lines b2" "curline b' < length (lines b')" "cx_of b' = cx_of b2"
        using Suc.IH [OF Suc.prems(1), of b2] by blast
      moreover have "mmove_up env (Suc k) b = mmove_up env k b2"
        using True Suc.prems(4) scroll v(1) by (simp add: b1_def b2_def Let_def)
      ultimately show ?thesis using b1 by (simp add: b2_def)
    next
      case False
      have "in_view env b1"
        using Suc.prems(3) False b1 by (simp add: in_view_def)
      moreover have "rows_fit env (lines b1)" "curline b1 < length (lines b1)"
        using Suc.prems(2) lt b1 by simp_all
      ultimately obtain b' where "mmove_up env k b1 = Some b'" "in_view env b'"
        "lines b' = lines b1" "curline b' < length (lines b')" "cx_of b' = cx_of b1"
        using Suc.IH [OF Suc.prems(1), of b1] by blast
      moreover have "mmove_up env (Suc k) b = mmove_up env k b1"
        using True Suc.prems(4) False by (simp add: b1_def Let_def)
      ultimately show ?thesis using b1 by simp
    qed
  qed
qed

lemma rows_fit_wcslen:
  assumes "rows_fit env ls" and "i < length ls"
  obtains n where "wcslen (data (ls ! i)) = Some n"
proof -
  have "case mnumvislines env (ls ! i) of None \<Rightarrow> False | Some v \<Rightarrow> v \<le> bufwin_row env"
    using assms(1,2) by (simp add: rows_fit_def list_all_length)
  then show ?thesis using that
    by (cases "wcslen (data (ls ! i))") (auto simp: mnumvislines_def)
qed

text \<open>
  Claim C5, amended. If the row of the current line is inside the window before the move,
  the width of the buffer window is not negative, and every line of the buffer is a
  terminated string that takes at most as many visual rows (\<open>mnumvislines\<close>) as the
  window is high, then \<open>mmove\<close> returns and the row of the current line is inside the
  window again, whatever the two deltas are.
\<close>

theorem mmove_keeps_row_in_view:
  assumes "in_view env b" and "rows_fit env (lines b)" and "0 \<le> bufwin_col env"
    and "curline b < length (lines b)"
  shows "\<exists>b'. mmove env b dx dy = Some b' \<and> in_view env b'"
proof -
  define b0 where "b0 = set_cx b (int32 (cx_of b + dx))"
  have pre: "rows_fit env (lines b0)" "in_view env b0" "curline b0 < length (lines b0)"
    using assms by (simp_all add: b0_def)
  obtain b1 where b1: "(if dy < 0 then mmove_up env (nat (c_abs dy)) b0 else mmove_down env (nat dy) b0) = Some b1"
    "in_view env b1" "lines b1 = lines b0" "curline b1 < length (lines b1)"
    using mmove_up_in_view [OF assms(3) pre, of "nat (c_abs dy)"]
      mmove_down_in_view [OF assms(3) pre, of "nat dy"]
    by (cases "dy < 0") auto
  obtain n where n: "wcslen (data (lines b1 ! curline b1)) = Some n"
    using rows_fit_wcslen [of env "lines b1" "curline b1"] pre(1) b1(3,4) by auto
  have "mmove env b dx dy = Some (set_cx b1 (max (min (cx_of b1) (int n)) 0))"
    using b1(1,4) n unfolding mmove_def b0_def [symmetric] by (simp add: curln_def Let_def)
  then show ?thesis using b1(2) by simp
qed

theorem mmove_keeps_row_in_view_witness:
  "in_view env_small buf_three \<and> rows_fit env_small (lines buf_three)
   \<and> 0 \<le> bufwin_col env_small \<and> curline buf_three < length (lines buf_three)
   \<and> (\<exists>b'. mmove env_small buf_three 0 2 = Some b' \<and> in_view env_small b')"
proof -
  have h1: "in_view env_small buf_three"
    by (simp add: in_view_def buf_three_def env_small_def starty_of_def cy_of_def
        zero_Cursor_def zero_Coord_def)
  have h2: "rows_fit env_small (lines buf_three)"
    by (simp add: rows_fit_def buf_three_def env_small_def mnumvislines_def wcslen_def c_div_def)
  have h3: "0 \<le> bufwin_col env_small" by (simp add: env_small_def)
  have h4: "curline buf_three < length (lines buf_three)" by (simp add: buf_three_def)
  from mmove_keeps_row_in_view [OF h1 h2 h3 h4, of 0 2] h1 h2 h3 h4
  show ?thesis by simp
qed

section \<open>Repetition counts\<close>

lemma mrepeat_loop_log:
  "mrepeat_loop log_call ac k s = Some (s\<lparr>trace := trace s @ replicate k ac\<rparr>)"
proof (induction k arbitrary: s)
  case 0
  then show ?case by simp
next
  case (Suc k)
  have "replicate (Suc k) ac = [ac] @ replicate k ac" by simp
  then show ?case using Suc by (simp add: log_call_def del: replicate.simps)
qed

lemma funpow_bind_None: "((\<lambda>r. Option.bind r (f :: 's \<Rightarrow> 's option)) ^^ k) None = None"
  by (induction k) simp_all

lemma mrepeat_loop_funpow:
  "mrepeat_loop call ac k s = ((\<lambda>r. Option.bind r (call ac)) ^^ k) (Some s)"
proof (induction k arbitrary: s)
  case 0
  then show ?case by simp
next
  case (Suc k)
  have unroll: "((\<lambda>r. Option.bind r (call ac)) ^^ Suc k) (Some s)
      = ((\<lambda>r. Option.bind r (call ac)) ^^ k) (call ac s)"
    by (simp only: funpow_Suc_right o_apply Option.bind.simps)
  show ?case
  proof (cases "call ac s")
    case None
    then show ?thesis unfolding unroll by (simp add: funpow_bind_None)
  next
    case (Some s')
    then show ?thesis unfolding unroll using Suc [of s'] by simp
  qed
qed

lemma mruncmd_loop_log:
  "mruncmd_loop cfg env log_call cmdt cmdlen a cnt acs s
     = Some (s\<lparr>mode := (if list_ex (\<lambda>ac. matches ac cmdt cmdlen) acs then MODE_COMMAND else mode s),
              trace := trace s @ concat (map (\<lambda>ac. replicate (nat (min cnt (max_cmd_repetition cfg))) (with_arg env a ac))
                 (filter (\<lambda>ac. matches ac cmdt cmdlen) acs))\<rparr>)"
proof (induction acs arbitrary: s)
  case Nil
  then show ?case by simp
next
  case (Cons ac acs)
  show ?case
  proof (cases "matches ac cmdt cmdlen")
    case True
    then show ?thesis
      by (simp add: Cons mrepeat_def mrepeat_loop_log)
  next
    case False
    then show ?thesis by (simp add: Cons)
  qed
qed

lemma wcstol_digits:
  assumes "list_all is_digit ds" and "ds \<noteq> []"
    and "case rest of [] \<Rightarrow> True | c # r \<Rightarrow> \<not> is_digit c"
    and "list_all (\<lambda>c. \<not> iswspace env c) ds"
  shows "wcstol env (ds @ rest) = (clamp_long (dec_val ds), rest)"
proof -
  obtain d ds' where ds: "ds = d # ds'" using assms(2) by (cases ds) auto
  have d: "is_digit d" "\<not> iswspace env d" using assms(1,4) ds by auto
  have nosign: "d \<noteq> 45" "d \<noteq> 43" using d(1) by (auto simp: is_digit_def)
  have tw: "takeWhile is_digit (ds @ rest) = ds"
    using assms(1,3) by (cases rest) (auto simp: list_all_iff takeWhile_append2 takeWhile_tail)
  have dw: "dropWhile is_digit (ds @ rest) = rest"
    using assms(1,3) by (cases rest) (auto simp: list_all_iff dropWhile_append2)
  have s1: "dropWhile (iswspace env) (ds @ rest) = ds @ rest"
    using d(2) ds by simp
  show ?thesis
    unfolding wcstol_def s1 using tw dw nosign ds assms(2)
    by (simp add: Let_def)
qed

lemma wcstol_no_digits:
  assumes "case rest of [] \<Rightarrow> True | c # r \<Rightarrow> \<not> iswspace env c \<and> c \<noteq> 45 \<and> c \<noteq> 43 \<and> \<not> is_digit c"
  shows "wcstol env rest = (0, rest)"
  using assms by (cases rest) (auto simp: wcstol_def Let_def)

lemma dec_val_snoc: "dec_val (ds @ [d]) = 10 * dec_val ds + (int d - 48)"
  by (simp add: dec_val_def)

lemma dec_val_nonneg: "list_all is_digit ds \<Longrightarrow> 0 \<le> dec_val ds"
  by (induction ds rule: rev_induct) (auto simp: dec_val_snoc is_digit_def, simp add: dec_val_def)

lemma mruncmd_log:
  assumes "wcstol env buf = (v, cmdt)" and "cmd_arg env cmdt = Some a"
  shows "mruncmd cfg env log_call buf s
     = Some (s\<lparr>mode := (if list_ex (\<lambda>ac. matches ac cmdt (cmdlen_of cmdt)) (buffer_actions cfg)
                         then MODE_COMMAND else mode s),
              trace := trace s @ concat (map (\<lambda>ac. replicate
                    (nat (min (if int32 v = 0 then 1 else int32 v) (max_cmd_repetition cfg)))
                    (with_arg env a ac))
                 (filter (\<lambda>ac. matches ac cmdt (cmdlen_of cmdt)) (buffer_actions cfg)))\<rparr>)"
  using assms by (simp add: mruncmd_def mruncmd_loop_log)

lemma wcstol_count:
  assumes "list_all is_digit ds" and "list_all (\<lambda>c. \<not> iswspace env c) ds"
    and "case rest of [] \<Rightarrow> True
         | c # r \<Rightarrow> \<not> is_digit c \<and> (ds = [] \<longrightarrow> \<not> iswspace env c \<and> c \<noteq> 45 \<and> c \<noteq> 43)"
    and "dec_val ds < 2147483648"
  shows "\<exists>v. wcstol env (ds @ rest) = (v, rest) \<and> int32 v = dec_val ds"
proof (cases "ds = []")
  case True
  have "wcstol env rest = (0, rest)"
    using assms(3) True by (intro wcstol_no_digits) (auto split: list.splits)
  then show ?thesis using True by (simp add: int32_def dec_val_def)
next
  case False
  have "wcstol env (ds @ rest) = (clamp_long (dec_val ds), rest)"
    using assms False by (intro wcstol_digits) (auto split: list.splits)
  then show ?thesis
    using dec_val_nonneg [OF assms(1)] assms(4) by (simp add: clamp_long_id int32_id)
qed

lemma mruncmd_count:
  assumes "list_all is_digit ds" and "list_all (\<lambda>c. \<not> iswspace env c) ds"
    and "case rest of [] \<Rightarrow> True
         | c # r \<Rightarrow> \<not> is_digit c \<and> (ds = [] \<longrightarrow> \<not> iswspace env c \<and> c \<noteq> 45 \<and> c \<noteq> 43)"
    and "dec_val ds < 2147483648"
    and "cmd_arg env rest = Some a"
  shows "mruncmd cfg env log_call (ds @ rest) s
     = Some (s\<lparr>mode := (if list_ex (\<lambda>ac. matches ac rest (cmdlen_of rest)) (buffer_actions cfg)
                         then MODE_COMMAND else mode s),
              trace := trace s @ concat (map (\<lambda>ac. replicate
                    (nat (min (if dec_val ds = 0 then 1 else dec_val ds) (max_cmd_repetition cfg)))
                    (with_arg env a ac))
                 (filter (\<lambda>ac. matches ac rest (cmdlen_of rest)) (buffer_actions cfg)))\<rparr>)"
proof -
  obtain v where v: "wcstol env (ds @ rest) = (v, rest)" "int32 v = dec_val ds"
    using wcstol_count [OF assms(1-4)] by blast
  show ?thesis using mruncmd_log [OF v(1) assms(5), of cfg s] v(2) by simp
qed

text \<open>
  Claim C10. For every action and every requested count \<open>n\<close>, \<open>mrepeat\<close> invokes
  the action's function \<open>min n max_cmd_repetition\<close> times (not at all where that is
  not positive): its result is that many applications of the call, and with the call that
  only records its action the record grows by that many entries. A count on the command
  line that is larger than the maximum therefore runs every matching action
  \<open>max_cmd_repetition\<close> times.
\<close>

theorem mrepeat_caps_the_count:
  "mrepeat cfg call ac n s
     = ((\<lambda>r. Option.bind r (call ac)) ^^ nat (min n (max_cmd_repetition cfg))) (Some s)
   \<and> mrepeat cfg log_call ac n t
     = Some (t\<lparr>trace := trace t @ replicate (nat (min n (max_cmd_repetition cfg))) ac\<rparr>)
   \<and> (ds \<noteq> [] \<and> list_all is_digit ds \<and> list_all (\<lambda>c. \<not> iswspace env c) ds
        \<and> (case rest of [] \<Rightarrow> True | c # r \<Rightarrow> \<not> is_digit c)
        \<and> max_cmd_repetition cfg < dec_val ds \<and> dec_val ds < 2147483648
        \<and> cmd_arg env rest = Some a
      \<longrightarrow> mruncmd cfg env log_call (ds @ rest) t
          = Some (t\<lparr>mode := (if list_ex (\<lambda>ac. matches ac rest (cmdlen_of rest)) (buffer_actions cfg)
                              then MODE_COMMAND else mode t),
                   trace := trace t @ concat (map (\<lambda>ac. replicate (nat (max_cmd_repetition cfg)) (with_arg env a ac))
                      (filter (\<lambda>ac. matches ac rest (cmdlen_of rest)) (buffer_actions cfg)))\<rparr>))"
proof (intro conjI impI)
  show "mrepeat cfg call ac n s
     = ((\<lambda>r. Option.bind r (call ac)) ^^ nat (min n (max_cmd_repetition cfg))) (Some s)"
    unfolding mrepeat_def by (rule mrepeat_loop_funpow)
  show "mrepeat cfg log_call ac n t
     = Some (t\<lparr>trace := trace t @ replicate (nat (min n (max_cmd_repetition cfg))) ac\<rparr>)"
    unfolding mrepeat_def by (rule mrepeat_loop_log)
next
  assume h: "ds \<noteq> [] \<and> list_all is_digit ds \<and> list_all (\<lambda>c. \<not> iswspace env c) ds
        \<and> (case rest of [] \<Rightarrow> True | c # r \<Rightarrow> \<not> is_digit c)
        \<and> max_cmd_repetition cfg < dec_val ds \<and> dec_val ds < 2147483648
        \<and> cmd_arg env rest = Some a"
  have r: "case rest of [] \<Rightarrow> True
         | c # r \<Rightarrow> \<not> is_digit c \<and> (ds = [] \<longrightarrow> \<not> iswspace env c \<and> c \<noteq> 45 \<and> c \<noteq> 43)"
    using h by (cases rest) auto
  have k: "min (if dec_val ds = 0 then 1 else dec_val ds) (max_cmd_repetition cfg)
      = max_cmd_repetition cfg"
    using h by auto
  from h have h1: "list_all is_digit ds" and h2: "list_all (\<lambda>c. \<not> iswspace env c) ds"
    and h4: "dec_val ds < 2147483648" and h5: "cmd_arg env rest = Some a"
    by simp_all
  show "mruncmd cfg env log_call (ds @ rest) t
          = Some (t\<lparr>mode := (if list_ex (\<lambda>ac. matches ac rest (cmdlen_of rest)) (buffer_actions cfg)
                              then MODE_COMMAND else mode t),
                   trace := trace t @ concat (map (\<lambda>ac. replicate (nat (max_cmd_repetition cfg)) (with_arg env a ac))
                      (filter (\<lambda>ac. matches ac rest (cmdlen_of rest)) (buffer_actions cfg)))\<rparr>)"
    using mruncmd_count [OF h1 h2 r h4 h5, of cfg t] unfolding k .
qed

theorem mrepeat_caps_the_count_witness:
  "mrepeat cfg4 log_call act_dd 250 traced_start
     = Some (traced_start\<lparr>trace := replicate 100 act_dd\<rparr>)
   \<and> mruncmd cfg4 env80 log_call [50, 53, 48, 106] traced_start
     = Some (traced_start\<lparr>trace := replicate 100 act_j\<rparr>)"
proof -
  have a: "cmd_arg env80 [106] = Some None"
    by (simp add: cmd_arg_def cmdlen_of_def findchr_def)
  have d: "dec_val [50, 53, 48] = 250" by (simp add: dec_val_def)
  have m: "filter (\<lambda>ac. matches ac [106] (cmdlen_of [106])) (buffer_actions cfg4) = [act_j]"
    by (simp add: cfg4_def matches_def cmdlen_of_def findchr_def act_i_def act_dd_def act_j_def)
  have mx: "max_cmd_repetition cfg4 = 100" by (simp add: cfg4_def)
  have hyp: "[50, 53, 48] \<noteq> [] \<and> list_all is_digit [50, 53, 48]
        \<and> list_all (\<lambda>c. \<not> iswspace env80 c) [50, 53, 48]
        \<and> (case [106] of [] \<Rightarrow> True | c # r \<Rightarrow> \<not> is_digit c)
        \<and> max_cmd_repetition cfg4 < dec_val [50, 53, 48] \<and> dec_val [50, 53, 48] < 2147483648
        \<and> cmd_arg env80 [106] = Some None"
    using a d mx by (simp add: is_digit_def env80_def)
  have ex: "list_ex (\<lambda>ac. matches ac [106] (cmdlen_of [106])) (buffer_actions cfg4)"
    by (simp add: cfg4_def matches_def cmdlen_of_def findchr_def act_i_def act_dd_def act_j_def)
  from mrepeat_caps_the_count [of cfg4 log_call act_dd 250 traced_start traced_start
      "[50, 53, 48]" env80 "[106]" None]
  have c2: "mrepeat cfg4 log_call act_dd 250 traced_start
       = Some (traced_start\<lparr>trace := trace traced_start @ replicate (nat (min 250 (max_cmd_repetition cfg4))) act_dd\<rparr>)"
    and c3: "mruncmd cfg4 env80 log_call ([50, 53, 48] @ [106]) traced_start
          = Some (traced_start\<lparr>mode := (if list_ex (\<lambda>ac. matches ac [106] (cmdlen_of [106])) (buffer_actions cfg4)
                              then MODE_COMMAND else mode traced_start),
                   trace := trace traced_start @ concat (map (\<lambda>ac. replicate (nat (max_cmd_repetition cfg4)) (with_arg env80 None ac))
                      (filter (\<lambda>ac. matches ac [106] (cmdlen_of [106])) (buffer_actions cfg4)))\<rparr>)"
    using hyp by blast+
  have t0: "trace traced_start = []" and m0: "mode traced_start = MODE_COMMAND"
    by (simp_all add: traced_start_def)
  have upd: "traced_start\<lparr>mode := MODE_COMMAND, trace := replicate 100 act_j\<rparr>
      = traced_start\<lparr>trace := replicate 100 act_j\<rparr>"
    by (simp add: traced_start_def)
  show ?thesis
    using c2 c3 unfolding m mx t0 using ex upd by (simp add: with_arg_def)
qed

text \<open>
  How \<open>wcstol\<close> reads a command text that is made of leading white space, an optional
  sign, a run of decimal digits and the rest: without a digit the value is 0 and nothing is
  consumed; with digits the value is the signed number and the rest is left.
\<close>

lemma int32_int: "- 2147483648 \<le> v \<Longrightarrow> v < 2147483648 \<Longrightarrow> int32 v = v"
  by (simp add: int32_def)

lemma clamp_long_int: "- 2147483648 \<le> v \<Longrightarrow> v < 2147483648 \<Longrightarrow> clamp_long v = v"
  by (simp add: clamp_long_def)

lemma wcstol_parse:
  assumes ws: "list_all (iswspace env) ws"
    and first: "case sg @ ds @ rest of [] \<Rightarrow> True | c # r \<Rightarrow> \<not> iswspace env c"
    and sg: "sg = [] \<or> sg = [43] \<or> sg = [45]"
    and nosign: "sg = [] \<longrightarrow> (case ds @ rest of [] \<Rightarrow> True | c # r \<Rightarrow> c \<noteq> 43 \<and> c \<noteq> 45)"
    and ds: "list_all is_digit ds"
    and rest: "case rest of [] \<Rightarrow> True | c # r \<Rightarrow> \<not> is_digit c"
  shows "wcstol env (ws @ sg @ ds @ rest) =
     (if ds = [] then (0, ws @ sg @ ds @ rest)
      else (clamp_long (if sg = [45] then - dec_val ds else dec_val ds), rest))"
proof -
  have s1: "dropWhile (iswspace env) (ws @ sg @ ds @ rest) = sg @ ds @ rest"
  proof -
    have "dropWhile (iswspace env) (ws @ sg @ ds @ rest) = dropWhile (iswspace env) (sg @ ds @ rest)"
      using ws by (simp add: list_all_iff dropWhile_append2)
    also have "\<dots> = sg @ ds @ rest"
      using first by (cases "sg @ ds @ rest") auto
    finally show ?thesis .
  qed
  have tw: "takeWhile is_digit (ds @ rest) = ds"
    using ds rest by (cases rest) (auto simp: list_all_iff takeWhile_tail)
  have dw: "dropWhile is_digit (ds @ rest) = rest"
    using ds rest by (cases rest) (auto simp: list_all_iff dropWhile_append2)
  have neg: "(case sg @ ds @ rest of [] \<Rightarrow> False | c # r \<Rightarrow> c = 45) = (sg = [45])"
    using sg nosign by (cases "ds @ rest") auto
  have s2: "(case sg @ ds @ rest of [] \<Rightarrow> sg @ ds @ rest
             | c # r \<Rightarrow> if c = 45 \<or> c = 43 then r else sg @ ds @ rest) = ds @ rest"
    using sg nosign by (cases "ds @ rest") auto
  show ?thesis
    unfolding wcstol_def s1 Let_def neg s2 tw dw by simp
qed

lemma mruncmd_parse_count:
  assumes "list_all (iswspace env) ws"
    and "case sg @ ds @ rest of [] \<Rightarrow> True | c # r \<Rightarrow> \<not> iswspace env c"
    and "sg = [] \<or> sg = [43] \<or> sg = [45]"
    and "sg = [] \<longrightarrow> (case ds @ rest of [] \<Rightarrow> True | c # r \<Rightarrow> c \<noteq> 43 \<and> c \<noteq> 45)"
    and "list_all is_digit ds"
    and "case rest of [] \<Rightarrow> True | c # r \<Rightarrow> \<not> is_digit c"
    and "v = (if sg = [45] then - dec_val ds else dec_val ds)"
    and "- 2147483648 \<le> v" and "v < 2147483648"
    and "cmdt = (if ds = [] then ws @ sg @ rest else rest)"
    and "cmd_arg env cmdt = Some a"
  shows "mruncmd cfg env log_call (ws @ sg @ ds @ rest) s
     = Some (s\<lparr>mode := (if list_ex (\<lambda>ac. matches ac cmdt (cmdlen_of cmdt)) (buffer_actions cfg)
                         then MODE_COMMAND else mode s),
              trace := trace s @ concat (map (\<lambda>ac. replicate
                    (nat (min (if v = 0 then 1 else v) (max_cmd_repetition cfg)))
                    (with_arg env a ac))
                 (filter (\<lambda>ac. matches ac cmdt (cmdlen_of cmdt)) (buffer_actions cfg)))\<rparr>)"
proof -
  have "\<exists>u. wcstol env (ws @ sg @ ds @ rest) = (u, cmdt) \<and> int32 u = v"
  proof (cases "ds = []")
    case True
    then have "v = 0" using assms(7) by (simp add: dec_val_def)
    then show ?thesis
      using wcstol_parse [OF assms(1-6)] True assms(10) by (simp add: int32_def)
  next
    case False
    then show ?thesis
      using wcstol_parse [OF assms(1-6)] assms(7-10)
      by (simp add: clamp_long_int int32_int)
  qed
  then obtain u where u: "wcstol env (ws @ sg @ ds @ rest) = (u, cmdt)" "int32 u = v"
    by blast
  show ?thesis using mruncmd_log [OF u(1) assms(11), of cfg s] u(2) by simp
qed

text \<open>
  Claim C4 says that the command interpreter invokes each matching action as many times as
  the leading decimal number says. The count goes through \<open>mrepeat\<close>, which caps it:
  with a maximum of 100 the command text "101dd" runs the action bound to \<open>dd\<close> 100
  times, not 101. The count is an \<open>int\<close>: the command text "2147483648dd" gives a
  negative count, and the action is not run at all.
\<close>

theorem count_above_maximum_counterexample:
  "dec_val [49, 48, 49] = 101
   \<and> map_option trace (mruncmd cfg4 env80 log_call [49, 48, 49, 100, 100] traced_start)
     = Some (replicate 100 act_dd)
   \<and> dec_val [50, 49, 52, 55, 52, 56, 51, 54, 52, 56] = 2147483648
   \<and> map_option trace
        (mruncmd cfg4 env80 log_call [50, 49, 52, 55, 52, 56, 51, 54, 52, 56, 100, 100] traced_start)
     = Some []"
  by code_simp

text \<open>
  Claim C4, amended. The command text is read as \<open>wcstol\<close> reads it: all its leading
  white space \<open>ws\<close>, a sign \<open>sg\<close> where one follows, the run of decimal digits \<open>ds\<close>
  that follows, and the \<open>rest\<close>. The leading integer \<open>v\<close> is the value of the digits,
  negated behind a minus sign, and it fits an \<open>int\<close>. The count is \<open>v\<close>, or 1 where
  the integer is absent or zero. The command is the text behind the integer, and the whole
  text where there is no digit. Every table entry that matches the command token is invoked
  \<open>min count max_cmd_repetition\<close> times (not at all where that is not positive), in
  table order, with the command's argument attached; the other entries are not invoked.
\<close>

theorem command_repetition_count:
  assumes "list_all (iswspace env) ws"
    and "case sg @ ds @ rest of [] \<Rightarrow> True | c # r \<Rightarrow> \<not> iswspace env c"
    and "sg = [] \<or> sg = [43] \<or> sg = [45]"
    and "sg = [] \<longrightarrow> (case ds @ rest of [] \<Rightarrow> True | c # r \<Rightarrow> c \<noteq> 43 \<and> c \<noteq> 45)"
    and "list_all is_digit ds"
    and "case rest of [] \<Rightarrow> True | c # r \<Rightarrow> \<not> is_digit c"
    and "v = (if sg = [45] then - dec_val ds else dec_val ds)"
    and "- 2147483648 \<le> v" and "v < 2147483648"
    and "cmdt = (if ds = [] then ws @ sg @ rest else rest)"
    and "cmd_arg env cmdt = Some a"
  shows "mruncmd cfg env log_call (ws @ sg @ ds @ rest) s
     = Some (s\<lparr>mode := (if list_ex (\<lambda>ac. matches ac cmdt (cmdlen_of cmdt)) (buffer_actions cfg)
                         then MODE_COMMAND else mode s),
              trace := trace s @ concat (map (\<lambda>ac. replicate
                    (nat (min (if v = 0 then 1 else v) (max_cmd_repetition cfg)))
                    (with_arg env a ac))
                 (filter (\<lambda>ac. matches ac cmdt (cmdlen_of cmdt)) (buffer_actions cfg)))\<rparr>)"
  using assms by (rule mruncmd_parse_count)

theorem command_repetition_count_witness:
  "mruncmd cfg4 env80 log_call [32, 43, 51, 100, 100] traced_start
     = Some (traced_start\<lparr>trace := [act_dd, act_dd, act_dd]\<rparr>)"
proof -
  have h1: "list_all (iswspace env80) [32]" by (simp add: env80_def)
  have h2: "case [43] @ [51] @ [100, 100] of [] \<Rightarrow> True | c # r \<Rightarrow> \<not> iswspace env80 c"
    by (simp add: env80_def)
  have h3: "[43] = [] \<or> [43] = [43::nat] \<or> [43] = [45::nat]" by simp
  have h4: "[43::nat] = [] \<longrightarrow> (case [51] @ [100, 100] of [] \<Rightarrow> True | c # r \<Rightarrow> c \<noteq> 43 \<and> c \<noteq> (45::nat))"
    by simp
  have h5: "list_all is_digit [51]" by (simp add: is_digit_def)
  have h6: "case [100, 100] of [] \<Rightarrow> True | c # r \<Rightarrow> \<not> is_digit c" by (simp add: is_digit_def)
  have h7: "(3::int) = (if [43] = [45::nat] then - dec_val [51] else dec_val [51])"
    by (simp add: dec_val_def)
  have h8: "- 2147483648 \<le> (3::int)" by simp
  have h9: "(3::int) < 2147483648" by simp
  have h10: "[100, 100] = (if [51] = ([]::nat list) then [32] @ [43] @ [100, 100] else [100, 100::nat])"
    by simp
  have h11: "cmd_arg env80 [100, 100] = Some None"
    by (simp add: cmd_arg_def cmdlen_of_def findchr_def)
  have m: "filter (\<lambda>ac. matches ac [100, 100] (cmdlen_of [100, 100])) (buffer_actions cfg4) = [act_dd]"
    by (simp add: cfg4_def matches_def cmdlen_of_def findchr_def act_i_def act_dd_def act_j_def
        eval_nat_numeral)
  have ex: "list_ex (\<lambda>ac. matches ac [100, 100] (cmdlen_of [100, 100])) (buffer_actions cfg4)"
    by (simp add: cfg4_def matches_def cmdlen_of_def findchr_def act_i_def act_dd_def act_j_def
        eval_nat_numeral)
  have k: "nat (min (if (3::int) = 0 then 1 else 3) (max_cmd_repetition cfg4)) = 3"
    by (simp add: cfg4_def)
  have upd: "traced_start\<lparr>mode := MODE_COMMAND, trace := [act_dd, act_dd, act_dd]\<rparr>
      = traced_start\<lparr>trace := [act_dd, act_dd, act_dd]\<rparr>"
    by (simp add: traced_start_def)
  have t0: "trace traced_start = []" by (simp add: traced_start_def)
  show ?thesis
    using command_repetition_count [OF h1 h2 h3 h4 h5 h6 h7 h8 h9 h10 h11, of cfg4 traced_start]
    unfolding m k t0 using ex upd by (simp add: with_arg_def numeral_3_eq_3)
qed

text \<open>The three command texts of the claim, for every table and every maximum of at least
  3 (at least 1 for the last two): "3dd", "dd" and "0dd". The entries that match the token
  \<open>dd\<close> are invoked three times, once and once.\<close>

lemma command_3dd:
  assumes "3 \<le> max_cmd_repetition cfg" and "\<not> iswspace env 51"
  shows "map_option trace (mruncmd cfg env log_call [51, 100, 100] s)
     = Some (trace s @ concat (map (\<lambda>ac. [ac, ac, ac])
               (filter (\<lambda>ac. matches ac [100, 100] 2) (buffer_actions cfg))))"
proof -
  have h5: "cmd_arg env [100, 100] = Some None"
    by (simp add: cmd_arg_def cmdlen_of_def findchr_def)
  have l: "cmdlen_of [100, 100] = 2" by (simp add: cmdlen_of_def findchr_def)
  have k: "nat (min (if dec_val [51] = 0 then 1 else dec_val [51]) (max_cmd_repetition cfg)) = 3"
    using assms(1) by (simp add: dec_val_def)
  have "mruncmd cfg env log_call ([51] @ [100, 100]) s = Some (s\<lparr>mode := (if list_ex (\<lambda>ac. matches ac [100, 100] (cmdlen_of [100, 100])) (buffer_actions cfg)
                         then MODE_COMMAND else mode s),
              trace := trace s @ concat (map (\<lambda>ac. replicate
                    (nat (min (if dec_val [51] = 0 then 1 else dec_val [51]) (max_cmd_repetition cfg)))
                    (with_arg env None ac))
                 (filter (\<lambda>ac. matches ac [100, 100] (cmdlen_of [100, 100])) (buffer_actions cfg)))\<rparr>)"
    using assms(2) h5 by (intro mruncmd_count) (simp_all add: is_digit_def dec_val_def)
  then show ?thesis unfolding k l by (simp add: with_arg_def numeral_3_eq_3)
qed

lemma command_dd:
  assumes "1 \<le> max_cmd_repetition cfg" and "\<not> iswspace env 100"
  shows "map_option trace (mruncmd cfg env log_call [100, 100] s)
     = Some (trace s @ filter (\<lambda>ac. matches ac [100, 100] 2) (buffer_actions cfg))"
proof -
  have h5: "cmd_arg env [100, 100] = Some None"
    by (simp add: cmd_arg_def cmdlen_of_def findchr_def)
  have l: "cmdlen_of [100, 100] = 2" by (simp add: cmdlen_of_def findchr_def)
  have k: "nat (min (if dec_val [] = 0 then 1 else dec_val []) (max_cmd_repetition cfg)) = 1"
    using assms(1) by (simp add: dec_val_def)
  have "mruncmd cfg env log_call ([] @ [100, 100]) s = Some (s\<lparr>mode := (if list_ex (\<lambda>ac. matches ac [100, 100] (cmdlen_of [100, 100])) (buffer_actions cfg)
                         then MODE_COMMAND else mode s),
              trace := trace s @ concat (map (\<lambda>ac. replicate
                    (nat (min (if dec_val [] = 0 then 1 else dec_val []) (max_cmd_repetition cfg)))
                    (with_arg env None ac))
                 (filter (\<lambda>ac. matches ac [100, 100] (cmdlen_of [100, 100])) (buffer_actions cfg)))\<rparr>)"
    using assms(2) h5 by (intro mruncmd_count) (simp_all add: is_digit_def dec_val_def)
  then show ?thesis unfolding k l by (simp add: with_arg_def concat_map_singleton)
qed

lemma command_0dd:
  assumes "1 \<le> max_cmd_repetition cfg" and "\<not> iswspace env 48"
  shows "map_option trace (mruncmd cfg env log_call [48, 100, 100] s)
     = Some (trace s @ filter (\<lambda>ac. matches ac [100, 100] 2) (buffer_actions cfg))"
proof -
  have h5: "cmd_arg env [100, 100] = Some None"
    by (simp add: cmd_arg_def cmdlen_of_def findchr_def)
  have l: "cmdlen_of [100, 100] = 2" by (simp add: cmdlen_of_def findchr_def)
  have k: "nat (min (if dec_val [48] = 0 then 1 else dec_val [48]) (max_cmd_repetition cfg)) = 1"
    using assms(1) by (simp add: dec_val_def)
  have "mruncmd cfg env log_call ([48] @ [100, 100]) s = Some (s\<lparr>mode := (if list_ex (\<lambda>ac. matches ac [100, 100] (cmdlen_of [100, 100])) (buffer_actions cfg)
                         then MODE_COMMAND else mode s),
              trace := trace s @ concat (map (\<lambda>ac. replicate
                    (nat (min (if dec_val [48] = 0 then 1 else dec_val [48]) (max_cmd_repetition cfg)))
                    (with_arg env None ac))
                 (filter (\<lambda>ac. matches ac [100, 100] (cmdlen_of [100, 100])) (buffer_actions cfg)))\<rparr>)"
    using assms(2) h5 by (intro mruncmd_count) (simp_all add: is_digit_def dec_val_def)
  then show ?thesis unfolding k l by (simp add: with_arg_def concat_map_singleton)
qed

section \<open>Loading and saving\<close>

text \<open>
  Claim C8. A buffer fresh from \<open>mnewbuf\<close> is loaded from a path that is not \<open>-\<close>
  and cannot be opened for reading. \<open>mreadbuf\<close> returns 1, the buffer has the requested
  path and its one line, which is empty. When that buffer is the current one and the path
  can be opened for writing, \<open>save\<close> without argument creates the file at that path, with
  the one empty line in it.
\<close>

theorem load_of_unreadable_path:
  assumes "mnewbuf cfg e = Some (p, e1)" and "pth \<noteq> ''-''" and "fs pth = None"
    and "0 < default_linebuf_size cfg" and "arg_v (arg_a ac) = Some None"
  shows "\<exists>b. heap e1 p = Some b
     \<and> mreadbuf cfg env fs b pth = Some (1, b\<lparr>path := Some pth\<rparr>)
     \<and> map (\<lambda>ln. wcs (data ln)) (lines (b\<lparr>path := Some pth\<rparr>)) = [Some []]
     \<and> (can_write env pth \<longrightarrow>
          (\<exists>fs'. save cfg env ac (put p (b\<lparr>path := Some pth\<rparr>) (e1\<lparr>curbuf := Some p\<rparr>)) fs = Some fs'
                 \<and> fs' pth = Some [10]))"
proof -
  obtain b where b: "heap e1 p = Some b"
    "lines b = [\<lparr>length_ln = default_linebuf_size cfg, data = replicate (default_linebuf_size cfg + 18) 0\<rparr>]"
    using mnewbuf_heap [OF assms(1)] by blast
  have rd: "mreadbuf cfg env fs b pth = Some (1, b\<lparr>path := Some pth\<rparr>)"
    using assms(2,3) by (simp add: mreadbuf_def)
  have one: "map (\<lambda>ln. wcs (data ln)) (lines (b\<lparr>path := Some pth\<rparr>)) = [Some []]"
    using b(2) assms(4) by (simp add: wcs_zeros)
  have ftext: "file_text (lines b) = Some [10]"
    using b(2) assms(4) by (simp add: wcs_zeros)
  have sv: "\<exists>fs'. save cfg env ac (put p (b\<lparr>path := Some pth\<rparr>) (e1\<lparr>curbuf := Some p\<rparr>)) fs = Some fs'
                 \<and> fs' pth = Some [10]" if "can_write env pth"
    using that assms(3,5) ftext by (auto simp: save_def put_def Let_def)
  show ?thesis
    by (rule exI [of _ b]) (intro conjI impI b(1) rd one sv)
qed

theorem load_of_unreadable_path_witness:
  "\<exists>e1 b. mnewbuf cfg4 init_editor = Some (0, e1) \<and> heap e1 0 = Some b
     \<and> mreadbuf cfg4 env80 Map.empty b ''f'' = Some (1, b\<lparr>path := Some ''f''\<rparr>)
     \<and> map (\<lambda>ln. wcs (data ln)) (lines (b\<lparr>path := Some ''f''\<rparr>)) = [Some []]
     \<and> (\<exists>fs'. save cfg4 env80 act_w (put 0 (b\<lparr>path := Some ''f''\<rparr>) (e1\<lparr>curbuf := Some 0\<rparr>)) Map.empty
                 = Some fs' \<and> fs' ''f'' = Some [10])"
proof -
  obtain e1 where h1: "mnewbuf cfg4 init_editor = Some (0, e1)"
    by (simp add: mnewbuf_def init_editor_def Let_def)
  have h2: "''f'' \<noteq> ''-''" by simp
  have h3: "(Map.empty :: filesys) ''f'' = None" by simp
  have h4: "0 < default_linebuf_size cfg4" by (simp add: cfg4_def)
  have h5: "arg_v (arg_a act_w) = Some None" by (simp add: act_w_def arg_v_def)
  have w: "can_write env80 ''f''" by (simp add: env80_def)
  from load_of_unreadable_path [OF h1 h2 h3 h4 h5, of env80]
  obtain b where b: "heap e1 0 = Some b"
    "mreadbuf cfg4 env80 Map.empty b ''f'' = Some (1, b\<lparr>path := Some ''f''\<rparr>)"
    "map (\<lambda>ln. wcs (data ln)) (lines (b\<lparr>path := Some ''f''\<rparr>)) = [Some []]"
    and sv: "can_write env80 ''f'' \<longrightarrow>
      (\<exists>fs'. save cfg4 env80 act_w (put 0 (b\<lparr>path := Some ''f''\<rparr>) (e1\<lparr>curbuf := Some 0\<rparr>)) Map.empty
                 = Some fs' \<and> fs' ''f'' = Some [10])"
    by (elim exE conjE)
  from sv w have "\<exists>fs'. save cfg4 env80 act_w (put 0 (b\<lparr>path := Some ''f''\<rparr>) (e1\<lparr>curbuf := Some 0\<rparr>)) Map.empty
                 = Some fs' \<and> fs' ''f'' = Some [10]"
    by (rule mp)
  with h1 b show ?thesis
    by (intro exI [of _ e1] exI [of _ b] conjI)
qed

text \<open>
  Claim C1 says that saving a buffer of N lines and loading the file into a fresh buffer
  gives N lines again. \<open>save\<close> ends every line with a newline, and \<open>mreadbuf\<close>
  allocates the next line after every record it reads, also after the last one. A buffer
  with the two lines "ab" and "cd" is saved as "ab", newline, "cd", newline; loading that
  file gives three lines: "ab", "cd" and an empty line.
\<close>

theorem save_then_load_adds_a_line:
  "startup cfg4
     \<bind> readfile cfg4 env80 Map.empty act_e
     \<bind> run cfg4 env80 no_cmd [Setmode MODE_INSERT, Insert 97, Insert 98, Insert 10,
                                Insert 99, Insert 100]
     \<bind> (\<lambda>e. save cfg4 env80 act_w e Map.empty
            \<bind> (\<lambda>fs. readfile cfg4 env80 fs act_e e
                   \<bind> (\<lambda>e'. Some (contents e, fs ''f'', contents e'))))
   = Some (Some [Some [97, 98], Some [99, 100]],
           Some [97, 98, 10, 99, 100, 10],
           Some [Some [97, 98], Some [99, 100], Some []])"
  by code_simp

text \<open>
  The general form of that run. \<open>fgetws\<close> reads back one saved line with its newline,
  the loop of \<open>mreadbuf\<close> stores it without the newline, and at the end of the file
  the line allocated last stays behind.
\<close>

lemma fgetws_chars_record:
  assumes "10 \<notin> set t" and "length t < k"
  shows "fgetws_chars k (t @ 10 # s) = (t @ [10], s)"
  using assms
proof (induction t arbitrary: k)
  case Nil
  then show ?case by (cases k) simp_all
next
  case (Cons c t)
  then obtain k' where k: "k = Suc k'" by (cases k) auto
  show ?case using Cons unfolding k by simp
qed

lemma read_lines_record:
  assumes t: "0 \<notin> set t" "10 \<notin> set t" and len: "length t + 2 \<le> default_linebuf_size cfg"
    and cap: "default_linebuf_size cfg \<le> length (data ln)"
  shows "read_lines cfg ln (t @ 10 # s) =
     (case read_lines cfg \<lparr>length_ln = 0, data = replicate (default_linebuf_size cfg) 0\<rparr> s of
        None \<Rightarrow> None
      | Some following \<Rightarrow>
          Some (ln\<lparr>length_ln := default_linebuf_size cfg,
                    data := t @ replicate (default_linebuf_size cfg - length t) 0
                            @ drop (default_linebuf_size cfg) (data ln)\<rparr> # following))"
proof -
  define N where "N = default_linebuf_size cfg"
  have g: "fgetws N (t @ 10 # s) = Some (t @ [10], s)"
    using t(2) len by (simp add: fgetws_def fgetws_chars_record N_def)
  have w: "wcs ((t @ [10]) @ [0]) = Some (t @ [10])"
    using t(1) by (subst wcs_Some_iff) auto
  then have l: "wcslen ((t @ [10]) @ [0]) = Some (length t + 1)"
    by (subst wcslen_Some_iff) auto
  have tw: "takeWhile (\<lambda>c. c \<noteq> 0) ((t @ [10]) @ [0]) = t @ [10]"
    using w by (auto simp: wcs_def split: if_splits)
  obtain m where m: "N - length t = Suc m" "m < N"
    using len unfolding N_def [symmetric] by (cases "N - length t") auto
  have tk: "take (N - length t) (10 # replicate N (0::nat)) = 10 # replicate (N - length t - 1) 0"
    unfolding m(1) using m(2) by (simp add: min_def)
  have c: "wcsncpy (data ln) ((t @ [10]) @ [0]) N
      = Some (t @ 10 # replicate (N - length t - 1) 0 @ drop N (data ln))"
    using cap len tk unfolding wcsncpy_def tw N_def [symmetric] by simp
  have st: "store (t @ 10 # replicate (N - length t - 1) 0 @ drop N (data ln)) (int (length t + 1) - 1) 0
      = Some (t @ replicate (N - length t) 0 @ drop N (data ln))"
  proof -
    have "(t @ 10 # replicate (N - length t - 1) 0 @ drop N (data ln))[length t := 0]
        = t @ 0 # replicate (N - length t - 1) 0 @ drop N (data ln)"
      by (simp add: list_update_append)
    moreover have "0 # replicate (N - length t - 1) (0::nat) = replicate (N - length t) 0"
      using len unfolding N_def [symmetric] by (cases "N - length t") auto
    ultimately show ?thesis by (simp add: store_def)
  qed
  show ?thesis
    using g l c st unfolding N_def by (subst read_lines.simps) (simp add: data_capacity_read)
qed

lemma read_lines_eof: "read_lines cfg ln [] = Some [ln]"
  by (subst read_lines.simps) (simp add: fgetws_def)

lemma file_text_read_back:
  assumes "list_all (clean_line cfg) ls" and "0 < default_linebuf_size cfg"
    and "data ln0 = replicate m 0" and "default_linebuf_size cfg \<le> m"
  shows "\<exists>ftext ls'. file_text ls = Some ftext \<and> read_lines cfg ln0 ftext = Some ls'
           \<and> map (\<lambda>l. wcs (data l)) ls' = map (\<lambda>l. wcs (data l)) ls @ [Some []]
           \<and> (ls \<noteq> [] \<longrightarrow> ftext \<noteq> [])"
  using assms
proof (induction ls arbitrary: ln0 m)
  case Nil
  then show ?case by (simp add: read_lines_eof wcs_zeros)
next
  case (Cons l ls)
  obtain t where t: "wcs (data l) = Some t" "10 \<notin> set t"
    "length t + 2 \<le> default_linebuf_size cfg"
    using Cons.prems(1) by (auto simp: clean_line_def split: option.splits)
  have t0: "0 \<notin> set t" using t(1) by (auto simp: wcs_Some_iff)
  define z where "z = \<lparr>length_ln = 0, data = replicate (default_linebuf_size cfg) 0\<rparr>"
  obtain ftext ls' where ih: "file_text ls = Some ftext" "read_lines cfg z ftext = Some ls'"
    "map (\<lambda>l. wcs (data l)) ls' = map (\<lambda>l. wcs (data l)) ls @ [Some []]"
    using Cons.IH [of z "default_linebuf_size cfg"] Cons.prems by (auto simp: z_def)
  have ft: "file_text (l # ls) = Some (t @ 10 # ftext)" using t(1) ih(1) by simp
  have cap: "default_linebuf_size cfg \<le> length (data ln0)" using Cons.prems(3,4) by simp
  have pad: "replicate (default_linebuf_size cfg - length t) 0 @ drop (default_linebuf_size cfg) (data ln0)
      = replicate (m - length t) (0::nat)"
    using Cons.prems(3,4) t(3) by (simp add: replicate_add [symmetric])
  have rd: "read_lines cfg ln0 (t @ 10 # ftext)
      = Some (ln0\<lparr>length_ln := default_linebuf_size cfg,
                    data := t @ replicate (m - length t) 0\<rparr> # ls')"
    using read_lines_record [OF t0 t(2,3) cap, of ftext] ih(2) unfolding pad by (simp add: z_def)
  have "wcs (t @ replicate (m - length t) 0) = Some t"
    using t0 t(3) Cons.prems(4) by (intro wcs_zeros_pad) auto
  then show ?case using ft rd ih(3) t(1) by simp
qed

text \<open>
  Saving the current buffer to its own path and loading that path into a buffer fresh from
  \<open>mnewbuf\<close>: when every line of the buffer can be carried through a file
  (\<open>clean_line\<close>), the loaded buffer holds the same strings in the same order,
  followed by one empty line.
\<close>

lemma save_then_load_appends_empty_line:
  assumes "curbuf e = Some p" and "heap e p = Some b" and "path b = Some f" and "f \<noteq> ''-''"
    and "arg_v (arg_a ac) = Some None" and "can_write env f"
    and "list_all (clean_line cfg) (lines b)" and "0 < default_linebuf_size cfg"
    and "lines nb = [ln0]" and "data ln0 = replicate (default_linebuf_size cfg + 18) 0"
    and "curline nb = 0"
  shows "\<exists>fs' nb'. save cfg env ac e fs = Some fs' \<and> mreadbuf cfg env fs' nb f = Some (1, nb')
           \<and> map (\<lambda>l. wcs (data l)) (lines nb') = map (\<lambda>l. wcs (data l)) (lines b) @ [Some []]"
proof -
  obtain ftext ls' where r: "file_text (lines b) = Some ftext" "read_lines cfg ln0 ftext = Some ls'"
    "map (\<lambda>l. wcs (data l)) ls' = map (\<lambda>l. wcs (data l)) (lines b) @ [Some []]"
    "lines b \<noteq> [] \<longrightarrow> ftext \<noteq> []"
    using file_text_read_back [OF assms(7,8,10)] by force
  have "\<exists>fs'. save cfg env ac e fs = Some fs' \<and> fs' f = Some ftext"
  proof (cases "backup_on_write cfg \<and> can_write env (backup_path cfg)")
    case True
    then show ?thesis
      using assms(1,2,3,5,6) r(1) by (simp add: save_def Let_def split: option.splits)
  next
    case False
    then show ?thesis
      using assms(1,2,3,5,6) r(1) by (auto simp: save_def Let_def)
  qed
  then obtain fs' where s: "save cfg env ac e fs = Some fs'" "fs' f = Some ftext"
    by blast
  show ?thesis
  proof (cases "ftext = []")
    case True
    then have "lines b = []" using r(4) by auto
    moreover have "wcs (data ln0) = Some []" using assms(10) by (simp add: wcs_zeros)
    ultimately show ?thesis
      using s True assms(4,9) by (auto simp: mreadbuf_def)
  next
    case False
    then have "mreadbuf cfg env fs' nb f = Some (1, nb\<lparr>lines := ls', path := Some f\<rparr>)"
      using s(2) r(2) assms(4,9,11) by (simp add: mreadbuf_def)
    then show ?thesis using s(1) r(3) by simp
  qed
qed

section \<open>Every buffer keeps a line\<close>

text \<open>Each function of the editor keeps the property that every buffer in the store has
  a line; the functions that call back into the command interpreter keep it when the
  command interpreter does.\<close>

lemma nonempty_put:
  "nonempty_lines e \<Longrightarrow> lines b \<noteq> [] \<Longrightarrow> nonempty_lines (put p b e)"
  by (simp add: nonempty_lines_def put_def)

lemma nonempty_get: "nonempty_lines e \<Longrightarrow> heap e p = Some b \<Longrightarrow> lines b \<noteq> []"
  by (auto simp: nonempty_lines_def)

lemma nonempty_fields [simp]:
  "nonempty_lines (e\<lparr>mode := m\<rparr>) = nonempty_lines e"
  "nonempty_lines (e\<lparr>curbuf := c\<rparr>) = nonempty_lines e"
  "nonempty_lines (e\<lparr>cmdbuf := c\<rparr>) = nonempty_lines e"
  "nonempty_lines (e\<lparr>buflist := c\<rparr>) = nonempty_lines e"
  "nonempty_lines (e\<lparr>repcnt := n\<rparr>) = nonempty_lines e"
  "nonempty_lines (e\<lparr>next_addr := a\<rparr>) = nonempty_lines e"
  by (simp_all add: nonempty_lines_def)

lemma nonempty_files [simp]: "nonempty_lines (w\<lparr>files := fs\<rparr>) = nonempty_lines w"
  by (simp add: nonempty_lines_def)

lemma mmove_up_lines: "mmove_up env k b = Some b' \<Longrightarrow> lines b' = lines b"
proof (induction k arbitrary: b)
  case 0
  then show ?case by simp
next
  case (Suc k)
  then show ?case
    by (fastforce simp: Let_def split: if_splits bind_splits)
qed

lemma mmove_down_lines: "mmove_down env k b = Some b' \<Longrightarrow> lines b' = lines b"
proof (induction k arbitrary: b)
  case 0
  then show ?case by simp
next
  case (Suc k)
  then show ?case
    by (fastforce simp: Let_def split: if_splits bind_splits)
qed

lemma mmove_lines: "mmove env b dx dy = Some b' \<Longrightarrow> lines b' = lines b"
  by (auto simp: mmove_def Let_def split: bind_splits if_splits
      dest!: mmove_up_lines mmove_down_lines)

lemma mjump_nonempty: "mjump buf m e = Some e' \<Longrightarrow> nonempty_lines e \<Longrightarrow> nonempty_lines e'"
  by (cases m) (auto simp: mjump_def split: bind_splits intro!: nonempty_put dest: nonempty_get)

lemma nonempty_put_same:
  "nonempty_lines e \<Longrightarrow> heap e p = Some b \<Longrightarrow> lines b' = lines b \<Longrightarrow> nonempty_lines (put p b' e)"
  by (auto simp: nonempty_lines_def put_def)

lemma motion_nonempty: "motion env dx dy e = Some e' \<Longrightarrow> nonempty_lines e \<Longrightarrow> nonempty_lines e'"
  by (auto simp: motion_def split: bind_splits intro: nonempty_put_same mmove_lines)

lemma coc_nonempty: "coc env e = Some e' \<Longrightarrow> nonempty_lines e \<Longrightarrow> nonempty_lines e'"
  by (auto simp: coc_def split: bind_splits intro: nonempty_put_same)

lemma length_mfreeln: "i < length ls \<Longrightarrow> length (mfreeln ls i) = length ls - 1"
  by (simp add: mfreeln_def)

lemma mfreeln_nonempty: "i < length ls \<Longrightarrow> 2 \<le> length ls \<Longrightarrow> mfreeln ls i \<noteq> []"
  using length_mfreeln [of i ls] by (cases "mfreeln ls i") auto

lemma freeln_nonempty:
  assumes "freeln e = Some e'" and "nonempty_lines e"
  shows "nonempty_lines e'"
proof -
  obtain p b where p: "curbuf e = Some p" "heap e p = Some b" "curline b < length (lines b)"
    using assms(1) by (auto simp: freeln_def curln_def split: bind_splits if_splits)
  have r: "freeln e =
     (if curline b + 1 < length (lines b) then
        Some (put p (b\<lparr>lines := mfreeln (lines b) (curline b), curline := curline b\<rparr>) e)
      else if 0 < curline b then
        Some (put p (b\<lparr>lines := mfreeln (lines b) (curline b), curline := curline b - 1\<rparr>) e)
      else Some e)"
    using p by (simp add: freeln_def curln_def Let_def)
  show ?thesis
  proof (cases "curline b + 1 < length (lines b)")
    case True
    then have "mfreeln (lines b) (curline b) \<noteq> []" using p(3) by (intro mfreeln_nonempty) auto
    then show ?thesis using assms r True by (auto intro!: nonempty_put)
  next
    case False
    show ?thesis
    proof (cases "0 < curline b")
      case True
      then have "mfreeln (lines b) (curline b) \<noteq> []" using p(3) by (intro mfreeln_nonempty) auto
      then show ?thesis using assms r False True by (auto intro!: nonempty_put)
    next
      case F2: False
      then show ?thesis using assms r False by simp
    qed
  qed
qed

lemma mnewbuf_nonempty:
  assumes "mnewbuf cfg e = Some (p, e')" and "nonempty_lines e"
  shows "nonempty_lines e'"
proof -
  define b where "b = \<lparr>next_b = buflist e, prev_b = None, path = None,
              lines = [\<lparr>length_ln = default_linebuf_size cfg,
                        data = replicate (default_linebuf_size cfg + 18) 0\<rparr>],
              curline = 0, cursor = zero_Cursor, linexoff = 4\<rparr>"
  define e1 where "e1 = (put (next_addr e) b e)\<lparr>buflist := Some (next_addr e), next_addr := Suc (next_addr e)\<rparr>"
  have ne1: "nonempty_lines e1"
    using assms(2) by (simp add: e1_def b_def nonempty_put)
  have r: "mnewbuf cfg e = (case buflist e of
        None \<Rightarrow> Some (next_addr e, e1)
      | Some q \<Rightarrow> Option.bind (heap e1 q) (\<lambda>nb. Some (next_addr e, put q (nb\<lparr>prev_b := Some (next_addr e)\<rparr>) e1)))"
    by (simp add: mnewbuf_def Let_def e1_def b_def data_capacity_fresh split: option.split)
  show ?thesis
  proof (cases "buflist e")
    case None
    then show ?thesis using assms(1) r ne1 by simp
  next
    case (Some q)
    then obtain nb where nb: "heap e1 q = Some nb"
      and e': "e' = put q (nb\<lparr>prev_b := Some (next_addr e)\<rparr>) e1"
      using assms(1) r by (auto split: bind_splits)
    show ?thesis unfolding e' using ne1 nb by (rule nonempty_put_same) simp
  qed
qed

lemma read_lines_nonempty: "read_lines cfg ln s = Some ls \<Longrightarrow> ls \<noteq> []"
  by (subst (asm) read_lines.simps) (auto split: option.splits prod.splits if_splits)

lemma mreadbuf_lines:
  assumes "mreadbuf cfg env fs b pth = Some (r, b')" and "lines b \<noteq> []"
  shows "lines b' \<noteq> []"
proof -
  obtain ln others where l: "lines b = ln # others" using assms(2) by (cases "lines b") auto
  show ?thesis
    using assms(1) l read_lines_nonempty [of cfg ln]
    by (auto simp: mreadbuf_def Let_def split: option.splits if_splits)
qed

lemma readfile_nonempty:
  assumes "readfile cfg env fs ac e = Some e'" and "nonempty_lines e"
  shows "nonempty_lines e'"
proof -
  obtain v where v: "arg_v (arg_a ac) = Some v"
    using assms(1) by (auto simp: readfile_def split: bind_splits)
  show ?thesis
  proof (cases v)
    case None
    then show ?thesis using assms v by (simp add: readfile_def)
  next
    case (Some pth)
    then obtain p e1 b r b' where s: "mnewbuf cfg e = Some (p, e1)" "heap e1 p = Some b"
      "mreadbuf cfg env fs b pth = Some (r, b')" "e' = put p b' (e1\<lparr>curbuf := Some p\<rparr>)"
      using assms(1) v by (auto simp: readfile_def split: bind_splits)
    have n1: "nonempty_lines e1" using s(1) assms(2) by (rule mnewbuf_nonempty)
    have "lines b' \<noteq> []" using s(3) nonempty_get [OF n1 s(2)] by (rule mreadbuf_lines)
    then show ?thesis unfolding s(4) using n1 by (intro nonempty_put) simp
  qed
qed

lemma mfreebuf_nonempty:
  assumes "mfreebuf buf e = Some e'" and "nonempty_lines e"
  shows "nonempty_lines e'"
proof (cases buf)
  case None
  then show ?thesis using assms by (simp add: mfreebuf_def)
next
  case (Some p)
  then obtain b e1 e2 where s: "heap e p = Some b"
    "(case prev_b b of None \<Rightarrow> Some e
      | Some q \<Rightarrow> Option.bind (heap e q) (\<lambda>pb. Some (put q (pb\<lparr>next_b := next_b b\<rparr>) e))) = Some e1"
    "(case next_b b of None \<Rightarrow> Some e1
      | Some q \<Rightarrow> Option.bind (heap e1 q) (\<lambda>nb. Some (put q (nb\<lparr>prev_b := prev_b b\<rparr>) e1))) = Some e2"
    "e' = (if curbuf e2 = Some p then e2\<lparr>curbuf := next_b b\<rparr> else e2)"
    using assms(1) by (auto simp: mfreebuf_def split: bind_splits)
  have n1: "nonempty_lines e1"
    using s(2) assms(2)
    by (cases "prev_b b") (auto split: bind_splits intro: nonempty_put_same)
  have n2: "nonempty_lines e2"
    using s(3) n1
    by (cases "next_b b") (auto split: bind_splits intro: nonempty_put_same)
  show ?thesis unfolding s(4) using n2 by simp
qed

lemma bufsel_nonempty: "bufsel i e = Some e' \<Longrightarrow> nonempty_lines e \<Longrightarrow> nonempty_lines e'"
  by (auto simp: bufsel_def split: bind_splits option.splits if_splits)

lemma bufdel_nonempty: "bufdel i e = Some e' \<Longrightarrow> nonempty_lines e \<Longrightarrow> nonempty_lines e'"
  by (auto simp: bufdel_def split: if_splits dest: mfreebuf_nonempty)

lemma append_nonempty: "append e = Some e' \<Longrightarrow> nonempty_lines e \<Longrightarrow> nonempty_lines e'"
  by (auto simp: append_def split: bind_splits dest: mjump_nonempty)

lemma handlemouse_nonempty:
  "handlemouse env e = Some e' \<Longrightarrow> nonempty_lines e \<Longrightarrow> nonempty_lines e'"
  by (auto simp: handlemouse_def split: bind_splits option.splits dest: motion_nonempty)

lemma find_nonempty: "find env re e = Some e' \<Longrightarrow> nonempty_lines e \<Longrightarrow> nonempty_lines e'"
  by (auto simp: find_def split: bind_splits option.splits if_splits dest: motion_nonempty)

lemma keeps_linesD: "keeps_lines f \<Longrightarrow> f s = Some s' \<Longrightarrow> nonempty_lines s \<Longrightarrow> nonempty_lines s'"
  by (auto simp: keeps_lines_def)

lemma keeps_linesI:
  "(\<And>s s'. f s = Some s' \<Longrightarrow> nonempty_lines s \<Longrightarrow> nonempty_lines s') \<Longrightarrow> keeps_lines f"
  by (auto simp: keeps_lines_def)

lemma split_tail_nonempty:
  assumes "mjump (Some p) MARKER_START (put p b1 e) = Some e1" and "heap e1 p = Some b1'"
    and "mmove env b1' 0 1 = Some b2" and "nonempty_lines e" and "lines b1 \<noteq> []"
  shows "nonempty_lines (put p (set_cx b2 ox) e1)"
proof -
  have n1: "nonempty_lines e1"
    using assms(1) nonempty_put [OF assms(4,5)] by (rule mjump_nonempty)
  have "lines b2 \<noteq> []" using mmove_lines [OF assms(3)] nonempty_get [OF n1 assms(2)] by simp
  then show ?thesis using n1 by (intro nonempty_put) simp_all
qed

lemma minsert_nonempty:
  assumes "minsert cfg env runcmd buf c e = Some e'" and "nonempty_lines e"
    and rc: "\<forall>t. keeps_lines (runcmd t)"
  shows "nonempty_lines e'"
proof (cases buf)
  case None
  then show ?thesis using assms(1,2) by (simp add: minsert_def)
next
  case (Some p)
  then obtain b where b: "heap e p = Some b"
    using assms(1) by (auto simp: minsert_def split: bind_splits)
  show ?thesis
  proof (cases "curln b")
    case None
    then show ?thesis using assms(1,2) Some b by (simp add: minsert_def)
  next
    case (Some ln)
    have "wcslen (data ln) \<noteq> None"
    proof
      assume "wcslen (data ln) = None"
      then have "minsert cfg env runcmd buf c e = None"
        using \<open>buf = Some p\<close> b Some by (simp add: minsert_def)
      with assms(1) show False by simp
    qed
    then obtain n where n: "wcslen (data ln) = Some n" by blast
    have cur: "curline b < length (lines b)" "ln = lines b ! curline b"
      using Some by (auto simp: curln_def split: if_splits)
    note facts = \<open>buf = Some p\<close> b Some n
    consider (bs) "c = KEY_BACKSPACE" | (dc) "c \<noteq> KEY_BACKSPACE" "c = KEY_DC"
      | (nl) "c \<noteq> KEY_BACKSPACE" "c \<noteq> KEY_DC" "c = 10"
      | (ch) "c \<noteq> KEY_BACKSPACE" "c \<noteq> KEY_DC" "c \<noteq> 10"
      by blast
    then show ?thesis
    proof cases
      case bs
      show ?thesis
      proof (cases "cx_of b \<noteq> 0")
        case True
        then show ?thesis
          using assms(1,2) facts bs
          by (auto simp: minsert_def Let_def set_curdata_def split: bind_splits
              intro!: nonempty_put dest: nonempty_get)
      next
        case x0: False
        show ?thesis
        proof (cases "0 < curline b")
          case False
          then show ?thesis using assms(1,2) facts bs x0 by (simp add: minsert_def)
        next
          case True
          then obtain plen pd b2 where j:
            "mmove env (b\<lparr>lines := (lines b)[curline b - 1 := (lines b ! (curline b - 1))\<lparr>data := pd\<rparr>]\<rparr>)
               (int plen + cx_of (b\<lparr>lines := (lines b)[curline b - 1 := (lines b ! (curline b - 1))\<lparr>data := pd\<rparr>]\<rparr>)) (- 1) = Some b2"
            "e' = put p (b2\<lparr>curline := curline b - 1,
                           lines := mfreeln (lines (b2\<lparr>curline := curline b - 1\<rparr>)) (curline b)\<rparr>) e"
            using assms(1) facts bs x0
            by (auto simp: minsert_def Let_def split: bind_splits)
          have "lines b2 = (lines b)[curline b - 1 := (lines b ! (curline b - 1))\<lparr>data := pd\<rparr>]"
            using mmove_lines [OF j(1)] by simp
          then have "length (lines b2) = length (lines b)" by simp
          then have "mfreeln (lines b2) (curline b) \<noteq> []"
            using cur(1) True by (intro mfreeln_nonempty) auto
          then show ?thesis unfolding j(2) using assms(2) by (intro nonempty_put) simp_all
        qed
      qed
    next
      case dc
      then show ?thesis
        using assms(1,2) facts
        by (auto simp: minsert_def Let_def set_curdata_def split: bind_splits
            intro!: nonempty_put dest: nonempty_get)
    next
      case ch
      then show ?thesis
        using assms(1,2) facts
        by (auto simp: minsert_def Let_def set_curdata_def split: bind_splits
            intro!: nonempty_put dest: nonempty_get)
    next
      case nl
      show ?thesis
      proof (cases "mode e = MODE_COMMAND")
        case True
        then obtain t where "runcmd t e = Some e'"
          using assms(1) facts nl by (auto simp: minsert_def Let_def split: bind_splits)
        then show ?thesis using assms(2) rc by (auto dest: keeps_linesD)
      next
        case False
        then show ?thesis
          using assms(1,2) facts nl
          apply (auto simp: minsert_def Let_def split: bind_splits if_splits)
            apply (rule split_tail_nonempty, assumption+, simp)+
          done
      qed
    qed
  qed
qed

lemma readstr_nonempty:
  assumes rc: "\<forall>t. keeps_lines (runcmd t)"
  shows "readstr cfg env runcmd cs e = Some e' \<Longrightarrow> nonempty_lines e \<Longrightarrow> nonempty_lines e'"
proof (induction cs arbitrary: e)
  case Nil
  then show ?case by simp
next
  case (Cons c cs)
  then show ?case
    by (auto split: option.splits dest: minsert_nonempty [OF _ _ rc])
qed

lemma newln_nonempty:
  assumes "newln cfg env runcmd e = Some e'" and "nonempty_lines e"
    and rc: "\<forall>t. keeps_lines (runcmd t)"
  shows "nonempty_lines e'"
  using assms(1,2)
  by (auto simp: newln_def split: bind_splits dest!: mjump_nonempty minsert_nonempty [OF _ _ rc])

lemma mrepeat_loop_nonempty:
  assumes "keeps_lines (call ac)"
  shows "mrepeat_loop call ac n e = Some e' \<Longrightarrow> nonempty_lines e \<Longrightarrow> nonempty_lines e'"
proof (induction n arbitrary: e)
  case 0
  then show ?case by simp
next
  case (Suc n)
  then show ?case using assms by (auto split: option.splits dest: keeps_linesD)
qed

lemma mrepeat_nonempty:
  assumes "keeps_lines (call ac)" and "mrepeat cfg call ac n e = Some e'" and "nonempty_lines e"
  shows "nonempty_lines e'"
  using mrepeat_loop_nonempty [of call ac] assms unfolding mrepeat_def by blast

lemma mruncmd_loop_nonempty:
  assumes cl: "\<forall>ac. keeps_lines (call ac)"
  shows "mruncmd_loop cfg env call cmdt cmdlen a cnt acs e = Some e' \<Longrightarrow> nonempty_lines e
           \<Longrightarrow> nonempty_lines e'"
proof (induction acs arbitrary: e)
  case Nil
  then show ?case by simp
next
  case (Cons ac acs)
  show ?case
  proof (cases "matches ac cmdt cmdlen")
    case False
    then show ?thesis using Cons by simp
  next
    case True
    then obtain e1 where e1: "mrepeat cfg call (with_arg env a ac) cnt (e\<lparr>mode := MODE_INSERT\<rparr>) = Some e1"
      "mruncmd_loop cfg env call cmdt cmdlen a cnt acs (e1\<lparr>mode := MODE_COMMAND\<rparr>) = Some e'"
      using Cons.prems(1) by (auto split: option.splits)
    have k: "keeps_lines (call (with_arg env a ac))" using cl by simp
    have "nonempty_lines (e\<lparr>mode := MODE_INSERT\<rparr>)" using Cons.prems(2) by simp
    with k e1(1) have "nonempty_lines e1"
      using mrepeat_nonempty [of call "with_arg env a ac"] by blast
    then show ?thesis using Cons.IH [OF e1(2)] by simp
  qed
qed

lemma mruncmd_keeps:
  assumes cl: "\<forall>ac. keeps_lines (call ac)"
  shows "keeps_lines (mruncmd cfg env call t)"
proof (rule keeps_linesI)
  fix e e' :: "'a editor_scheme"
  assume r: "mruncmd cfg env call t e = Some e'" and n: "nonempty_lines e"
  obtain v cmdt a where
    "mruncmd_loop cfg env call cmdt (cmdlen_of cmdt) a (if int32 v = 0 then 1 else int32 v)
       (buffer_actions cfg) e = Some e'"
    using r by (auto simp: mruncmd_def Let_def split: prod.splits option.splits)
  then show "nonempty_lines e'" using n mruncmd_loop_nonempty [OF cl] by blast
qed

lemma jump_nonempty: "jump m e = Some e' \<Longrightarrow> nonempty_lines e \<Longrightarrow> nonempty_lines e'"
  by (auto simp: jump_def dest: mjump_nonempty)

lemma call_fn_nonempty:
  "call_fn k cfg env ac w = Some w' \<Longrightarrow> nonempty_lines w \<Longrightarrow> nonempty_lines w'"
proof (induction k arbitrary: ac w w')
  case 0
  then show ?case by simp
next
  case (Suc k)
  have "\<forall>ac. keeps_lines (call_fn k cfg env ac)"
    using Suc.IH by (auto intro: keeps_linesI)
  then have rc: "\<forall>t. keeps_lines (mruncmd cfg env (call_fn k cfg env) t)"
    by (auto intro: mruncmd_keeps)
  show ?case
  proof (cases "fn_a ac")
    case Fn_repaint
    then show ?thesis using Suc.prems by simp
  next
    case Fn_handlemouse
    then show ?thesis using Suc.prems by (auto dest: handlemouse_nonempty)
  next
    case Fn_quit
    then show ?thesis using Suc.prems by simp
  next
    case Fn_setmode
    then show ?thesis using Suc.prems by (auto simp: setmode_def split: bind_splits)
  next
    case Fn_save
    then show ?thesis using Suc.prems by (auto split: bind_splits)
  next
    case Fn_readfile
    then show ?thesis using Suc.prems by (auto dest: readfile_nonempty)
  next
    case Fn_readstr
    then show ?thesis using Suc.prems
      by (auto split: bind_splits option.splits dest: readstr_nonempty [OF rc])
  next
    case Fn_find
    then show ?thesis using Suc.prems
      by (auto split: bind_splits option.splits dest: find_nonempty)
  next
    case Fn_command
    then show ?thesis using Suc.prems
      by (auto split: bind_splits option.splits dest: keeps_linesD [OF rc [rule_format]])
  next
    case Fn_motion
    then show ?thesis using Suc.prems by (auto split: bind_splits dest: motion_nonempty)
  next
    case Fn_jump
    then show ?thesis using Suc.prems
      by (auto split: bind_splits if_splits dest: jump_nonempty)
  next
    case Fn_coc
    then show ?thesis using Suc.prems by (auto dest: coc_nonempty)
  next
    case Fn_pgup
    then show ?thesis using Suc.prems by (auto simp: pgup_def dest: motion_nonempty)
  next
    case Fn_pgdown
    then show ?thesis using Suc.prems by (auto simp: pgdown_def dest: motion_nonempty)
  next
    case Fn_bufsel
    then show ?thesis using Suc.prems by (auto split: bind_splits dest: bufsel_nonempty)
  next
    case Fn_bufdel
    then show ?thesis using Suc.prems by (auto split: bind_splits dest: bufdel_nonempty)
  next
    case Fn_insert
    then show ?thesis using Suc.prems
      by (auto simp: insert_key_def split: bind_splits dest: minsert_nonempty [OF _ _ rc])
  next
    case Fn_freeln
    then show ?thesis using Suc.prems by (auto dest: freeln_nonempty)
  next
    case Fn_append
    then show ?thesis using Suc.prems by (auto dest: append_nonempty)
  next
    case Fn_newln
    then show ?thesis using Suc.prems by (auto dest: newln_nonempty [OF _ _ rc])
  qed
qed

lemma key_loop_nonempty:
  "key_loop k cfg env c acs w = Some w' \<Longrightarrow> nonempty_lines w \<Longrightarrow> nonempty_lines w'"
proof (induction acs arbitrary: w)
  case Nil
  then show ?case by simp
next
  case (Cons ac acs)
  show ?case
  proof (cases "int c = key_a ac mod 4294967296")
    case False
    then show ?thesis using Cons by simp
  next
    case True
    then obtain w1 where w1:
      "mrepeat cfg (call_fn k cfg env) ac (if repcnt w \<noteq> 0 then repcnt w else 1) w = Some w1"
      "key_loop k cfg env c acs w1 = Some w'"
      using Cons.prems(1) by (auto split: option.splits)
    have "keeps_lines (call_fn k cfg env ac)"
      using call_fn_nonempty by (auto intro: keeps_linesI)
    then have "nonempty_lines w1" using w1(1) Cons.prems(2)
      using mrepeat_nonempty [of "call_fn k cfg env" ac] by blast
    then show ?thesis using Cons.IH [OF w1(2)] by simp
  qed
qed

lemma key_event_nonempty:
  assumes "key_event k cfg env c w = Some w'" and "nonempty_lines w"
  shows "nonempty_lines w'"
proof -
  have "\<forall>ac. keeps_lines (call_fn k cfg env ac)"
    using call_fn_nonempty by (auto intro: keeps_linesI)
  then have rc: "\<forall>t. keeps_lines (mruncmd cfg env (call_fn k cfg env) t)"
    by (auto intro: mruncmd_keeps)
  show ?thesis
  proof (cases "int c = 4294967295")
    case True
    then show ?thesis using assms by (simp add: key_event_def)
  next
    case key: False
    show ?thesis
    proof (cases "mode w")
      case MODE_NORMAL
      define w1 where "w1 = (if c = ESC cfg \<or> c = 10 then w\<lparr>repcnt := 0\<rparr> else w)"
      have n1: "nonempty_lines w1" using assms(2) by (simp add: w1_def)
      have ev0: "key_event k cfg env c w =
          (case isdigit env c of
             None \<Rightarrow> None
           | Some dg \<Rightarrow>
               if dg \<and> \<not> (c = 48 \<and> repcnt w1 = 0) then
                 Some (w1\<lparr>repcnt := min (int32 (10 * repcnt w1 + (int c - 48))) (max_cmd_repetition cfg)\<rparr>)
               else (case key_loop k cfg env c (buffer_actions cfg) w1 of
                       None \<Rightarrow> None
                     | Some w2 \<Rightarrow> Some (w2\<lparr>repcnt := 0\<rparr>)))"
        unfolding key_event_def w1_def Let_def using key MODE_NORMAL by simp
      then obtain dg where dg: "isdigit env c = Some dg"
        using assms(1) by (cases "isdigit env c") auto
      have ev: "key_event k cfg env c w =
          (if dg \<and> \<not> (c = 48 \<and> repcnt w1 = 0) then
             Some (w1\<lparr>repcnt := min (int32 (10 * repcnt w1 + (int c - 48))) (max_cmd_repetition cfg)\<rparr>)
           else (case key_loop k cfg env c (buffer_actions cfg) w1 of
                   None \<Rightarrow> None
                 | Some w2 \<Rightarrow> Some (w2\<lparr>repcnt := 0\<rparr>)))"
        unfolding ev0 dg by simp
      show ?thesis
      proof (cases "dg \<and> \<not> (c = 48 \<and> repcnt w1 = 0)")
        case True
        then show ?thesis using assms(1) n1 unfolding ev by auto
      next
        case False
        then obtain w2 where w2: "key_loop k cfg env c (buffer_actions cfg) w1 = Some w2"
          "w' = w2\<lparr>repcnt := 0\<rparr>"
          using assms(1) unfolding ev by (auto split: option.splits)
        have "nonempty_lines w2" using w2(1) n1 by (rule key_loop_nonempty)
        then show ?thesis using w2(2) by simp
      qed
    next
      case MODE_INSERT
      show ?thesis
      proof (cases "c = ESC cfg")
        case True
        then show ?thesis using assms MODE_INSERT key by (auto simp: key_event_def)
      next
        case False
        then have "minsert cfg env (mruncmd cfg env (call_fn k cfg env)) (curbuf w) c w = Some w'"
          using assms(1) MODE_INSERT key by (simp add: key_event_def)
        then show ?thesis using assms(2) rc by (rule minsert_nonempty)
      qed
    next
      case MODE_SELECT
      then show ?thesis using assms key by (auto simp: key_event_def split: if_splits)
    next
      case MODE_COMMAND
      show ?thesis
      proof (cases "c = ESC cfg")
        case True
        then show ?thesis using assms MODE_COMMAND key by (auto simp: key_event_def)
      next
        case False
        then have "minsert cfg env (mruncmd cfg env (call_fn k cfg env)) (cmdbuf w) c w = Some w'"
          using assms(1) MODE_COMMAND key by (simp add: key_event_def)
        then show ?thesis using assms(2) rc by (rule minsert_nonempty)
      qed
    qed
  qed
qed

lemma run_events_nonempty:
  "run_events k cfg evs w = Some w' \<Longrightarrow> nonempty_lines w \<Longrightarrow> nonempty_lines w'"
proof (induction evs arbitrary: w)
  case Nil
  then show ?case by simp
next
  case (Cons ev evs)
  obtain env c where ev: "ev = (env, c)" by (cases ev)
  show ?case using Cons unfolding ev
    by (auto split: option.splits dest: key_event_nonempty)
qed

lemma load_args_nonempty:
  "load_args cfg env argv w = Some w' \<Longrightarrow> nonempty_lines w \<Longrightarrow> nonempty_lines w'"
proof (induction argv arbitrary: w)
  case Nil
  then show ?case by simp
next
  case (Cons a as)
  then obtain p w1 b r b' where s: "mnewbuf cfg w = Some (p, w1)" "heap w1 p = Some b"
    "mreadbuf cfg env (files w1) b a = Some (r, b')"
    "load_args cfg env as (put p b' (w1\<lparr>curbuf := Some p\<rparr>)) = Some w'"
    by (auto split: bind_splits)
  have n1: "nonempty_lines w1" using s(1) Cons.prems(2) by (rule mnewbuf_nonempty)
  have "lines b' \<noteq> []" using s(3) nonempty_get [OF n1 s(2)] by (rule mreadbuf_lines)
  then have "nonempty_lines (put p b' (w1\<lparr>curbuf := Some p\<rparr>))"
    using n1 by (intro nonempty_put) simp
  then show ?case using Cons.IH [OF s(4)] by simp
qed

lemma main_init_nonempty:
  assumes "main_init cfg env argv fs = Some w"
  shows "nonempty_lines w"
proof -
  have n0: "nonempty_lines (init_world fs)" by (simp add: nonempty_lines_def init_world_def)
  obtain c w1 cb w3 where s: "mnewbuf cfg (init_world fs) = Some (c, w1)" "heap w1 c = Some cb"
    "load_args cfg env argv ((put c (cb\<lparr>linexoff := 0\<rparr>) w1)\<lparr>cmdbuf := Some c\<rparr>) = Some w3"
    "(if curbuf w3 = None
      then Option.bind (mnewbuf cfg w3) (\<lambda>(p, w4). Some (w4\<lparr>curbuf := Some p\<rparr>))
      else Some w3) = Some w"
    using assms by (auto simp: main_init_def split: bind_splits)
  have n1: "nonempty_lines w1" using s(1) n0 by (rule mnewbuf_nonempty)
  have "nonempty_lines (put c (cb\<lparr>linexoff := 0\<rparr>) w1)"
    using n1 s(2) by (rule nonempty_put_same) simp
  then have n3: "nonempty_lines w3" using s(3) by (intro load_args_nonempty [OF s(3)]) simp
  show ?thesis
    using s(4) n3 by (auto split: if_splits bind_splits dest: mnewbuf_nonempty)
qed

text \<open>
  The invariant that every buffer has a line, for the functions that create buffers and
  delete lines and for the program as a whole.
  \<^item> \<open>mnewbuf\<close> gives the new buffer exactly one line, which is empty.
  \<^item> \<open>freeln\<close> on a current buffer with a single line changes nothing.
  \<^item> Whatever files are named on the command line and whatever keys follow, in every state
    that the main loop reaches every buffer in the store has at least one line. The run is
    any list of key events, each with its own surroundings, for every table of actions and
    every nesting depth of the command interpreter.
\<close>

lemma reachable_buffers_keep_a_line:
  "(mnewbuf cfg e = Some (q, e1) \<longrightarrow>
      (\<exists>nb. heap e1 q = Some nb
          \<and> lines nb = [\<lparr>length_ln = default_linebuf_size cfg,
                          data = replicate (default_linebuf_size cfg + 18) 0\<rparr>]))
   \<and> (curbuf s = Some p \<and> heap s p = Some sb \<and> length (lines sb) = 1 \<and> curline sb = 0 \<longrightarrow>
      freeln s = Some s)
   \<and> (main_init cfg env argv fs = Some w0 \<and> run_events k cfg evs w0 = Some w
        \<and> heap w r = Some b \<longrightarrow> lines b \<noteq> [])"
proof (intro conjI impI)
  assume "mnewbuf cfg e = Some (q, e1)"
  from mnewbuf_heap [OF this]
  show "\<exists>nb. heap e1 q = Some nb
          \<and> lines nb = [\<lparr>length_ln = default_linebuf_size cfg,
                          data = replicate (default_linebuf_size cfg + 18) 0\<rparr>]"
    by blast
next
  assume "curbuf s = Some p \<and> heap s p = Some sb \<and> length (lines sb) = 1 \<and> curline sb = 0"
  then show "freeln s = Some s"
    by (simp add: freeln_def curln_def Let_def)
next
  assume h: "main_init cfg env argv fs = Some w0 \<and> run_events k cfg evs w0 = Some w
        \<and> heap w r = Some b"
  then have "nonempty_lines w0" by (auto intro: main_init_nonempty)
  with h have "nonempty_lines w" by (auto dest: run_events_nonempty)
  with h show "lines b \<noteq> []" by (auto dest: nonempty_get)
qed

text \<open>A run of the main loop that returns: the keys \<open>i\<close>, \<open>a\<close>, newline and
  Backspace on the scratch buffer.\<close>

lemma reachable_buffers_keep_a_line_run:
  "\<exists>w0 w b. main_init cfg4 env80 [] Map.empty = Some w0
       \<and> run_events 2 cfg4 [(env80, 105), (env80, 97), (env80, 10), (env80, 263)] w0 = Some w
       \<and> heap w 1 = Some b \<and> lines b \<noteq> []"
proof -
  have "(case main_init cfg4 env80 [] Map.empty
           \<bind> run_events 2 cfg4 [(env80, 105), (env80, 97), (env80, 10), (env80, 263)] of
          None \<Rightarrow> False
        | Some w \<Rightarrow> (case heap w 1 of None \<Rightarrow> False | Some b \<Rightarrow> True))"
    by code_simp
  then obtain w0 w b where d: "main_init cfg4 env80 [] Map.empty = Some w0"
    "run_events 2 cfg4 [(env80, 105), (env80, 97), (env80, 10), (env80, 263)] w0 = Some w"
    "heap w 1 = Some b"
    by (auto split: option.splits bind_splits)
  from reachable_buffers_keep_a_line [where cfg = cfg4 and env = env80 and argv = "[]"
      and fs = Map.empty and ?w0.0 = w0 and k = 2
      and evs = "[(env80, 105), (env80, 97), (env80, 10), (env80, 263)]" and w = w and r = 1
      and b = b] d
  have "lines b \<noteq> []" by blast
  with d show ?thesis by blast
qed

text \<open>
  \<open>mclearbuf\<close> on a buffer whose head is its only line leaves that line, emptied, as the
  current line. On a buffer with a further line it has no result.
\<close>

lemma mclearbuf_single_line:
  assumes "lines b = [ln]" and "data ln \<noteq> []"
  shows "mclearbuf b = Some (b\<lparr>lines := [ln\<lparr>data := (data ln)[0 := 0]\<rparr>], curline := 0\<rparr>)"
  using assms by (simp add: mclearbuf_def store_def)

lemma mclearbuf_further_lines:
  assumes "lines b = ln # l2 # others"
  shows "mclearbuf b = None"
  using assms by (simp add: mclearbuf_def)

lemma mclearbuf_returns_iff:
  "(\<exists>b'. mclearbuf b = Some b') \<longleftrightarrow> (\<exists>ln. lines b = [ln] \<and> data ln \<noteq> [])"
  by (cases "lines b") (auto simp: mclearbuf_def store_def split: if_splits)

text \<open>
  Claim C7 says that every buffer has at least one line at all times, and that clearing a
  buffer releases every line except the first. \<open>mclearbuf\<close> frees the lines behind the
  head in a loop that steps with \<open>ln = ln->next\<close> after \<open>free(ln)\<close>: it reads the node
  it has just freed. Type "a", newline, "b" into the scratch buffer, which then has the two
  lines "a" and "b"; \<open>mclearbuf\<close> on that buffer has no defined result, where the claim
  says one line is left.
\<close>

theorem mclearbuf_reads_freed_line:
  "startup cfg4
     \<bind> run cfg4 env80 no_cmd [Setmode MODE_INSERT, Insert 97, Insert 10, Insert 98]
     \<bind> (\<lambda>e. Some (contents e,
                    map_option (\<lambda>b. Option.is_none (mclearbuf b)) (curbuf e \<bind> heap e)))
   = Some (Some [Some [97], Some [98]], Some True)"
  by code_simp

end
